theory Spec2Isabelle
  imports Complex_Main
begin

section \<open>JavaScript strings and arrays\<close>

text \<open>
  A JavaScript string is modelled as a \<^typ>\<open>string\<close> (a list of characters). The case
  mapping and the white space of the model are those of ASCII: \<open>toLowerCase\<close> maps
  \<open>A\<close>..\<open>Z\<close> to \<open>a\<close>..\<open>z\<close> and leaves every other character alone, \<open>trim\<close> strips
  space, tab, line feed, vertical tab, form feed and carriage return. An optional value
  (\<open>undefined\<close>) is \<^const>\<open>None\<close>.
\<close>

definition upper_letters :: string where
  "upper_letters = ''ABCDEFGHIJKLMNOPQRSTUVWXYZ''"

definition lower_letters :: string where
  "lower_letters = ''abcdefghijklmnopqrstuvwxyz''"

definition toLowerCase_char :: "char \<Rightarrow> char" where
  "toLowerCase_char c =
     (case map_of (zip upper_letters lower_letters) c of Some d \<Rightarrow> d | None \<Rightarrow> c)"

definition toLowerCase :: "string \<Rightarrow> string" where
  "toLowerCase s = map toLowerCase_char s"

definition isWhitespace :: "char \<Rightarrow> bool" where
  "isWhitespace c =
     (c = CHR '' '' \<or> c = CHR 0x09 \<or> c = CHR 0x0A \<or> c = CHR 0x0B \<or> c = CHR 0x0C \<or> c = CHR 0x0D)"

definition trim :: "string \<Rightarrow> string" where
  "trim s = rev (dropWhile isWhitespace (rev (dropWhile isWhitespace s)))"

text \<open>\<open>s.split(c)\<close> for a one-character separator: the empty string gives one empty piece.\<close>

fun split_on :: "char \<Rightarrow> string \<Rightarrow> string list" where
  "split_on c [] = [[]]"
| "split_on c (x # xs) =
     (if x = c then [] # split_on c xs
      else (case split_on c xs of
              [] \<Rightarrow> [[x]]
            | w # ws \<Rightarrow> (x # w) # ws))"

text \<open>\<open>xs[i]\<close>: reading an array out of range gives \<open>undefined\<close>.\<close>

definition index :: "'a list \<Rightarrow> nat \<Rightarrow> 'a option" where
  "index xs i = (if i < length xs then Some (xs ! i) else None)"

text \<open>Truthiness of a value that is a string or \<open>undefined\<close>: only a non-empty string is truthy.\<close>

fun truthy :: "string option \<Rightarrow> bool" where
  "truthy None = False"
| "truthy (Some s) = (s \<noteq> [])"

section \<open>Data model (the typedefs of upsell-products.js)\<close>

record variant =
  vid :: string
  vname :: string
  title :: string
  options :: "string list"
  price :: int
  compare_at_price :: int

record product_option =
  oname :: string
  position :: int
  ovalues :: "string list"

record hide_condition =
  optionName :: string
  optionValue :: string
  upsellProducts :: "string list"

section \<open>VariantMatcher\<close>

subsection \<open>calculateMatchScore\<close>

text \<open>
  The \<open>forEach\<close> over the upsell product's option names, with its index and its two
  counters \<open>matchScore\<close> and \<open>totalOptions\<close>. The main product's selection is a JavaScript
  object, modelled as a map from option name to value. The score is a JavaScript number;
  it is modelled as the exact rational \<open>matchScore / totalOptions * 100\<close>.
\<close>

fun score_loop ::
  "variant \<Rightarrow> (string \<rightharpoonup> string) \<Rightarrow> string list \<Rightarrow> nat \<Rightarrow> nat \<times> nat \<Rightarrow> nat \<times> nat" where
  "score_loop upsellVariant mainProductVariants [] optionIndex counters = counters"
| "score_loop upsellVariant mainProductVariants (optName # rest) optionIndex (matchScore, totalOptions) =
     (let upsellOptionValue = index (options upsellVariant) optionIndex in
      if truthy upsellOptionValue \<and> truthy (mainProductVariants optName) then
        (if map_option toLowerCase upsellOptionValue = map_option toLowerCase (mainProductVariants optName)
         then score_loop upsellVariant mainProductVariants rest (Suc optionIndex) (matchScore + 1, totalOptions + 1)
         else score_loop upsellVariant mainProductVariants rest (Suc optionIndex) (matchScore, totalOptions + 1))
      else score_loop upsellVariant mainProductVariants rest (Suc optionIndex) (matchScore, totalOptions))"

definition calculateMatchScore :: "variant \<Rightarrow> string list \<Rightarrow> (string \<rightharpoonup> string) \<Rightarrow> rat" where
  "calculateMatchScore upsellVariant upsellProductOptions mainProductVariants =
     (case score_loop upsellVariant mainProductVariants upsellProductOptions 0 (0, 0) of
        (matchScore, totalOptions) \<Rightarrow>
          if totalOptions > 0 then (of_nat matchScore / of_nat totalOptions) * 100 else 0)"

text \<open>
  The guard of the loop and its inner test, on a pair of an index and the option name
  found there: the pairs for which \<open>totalOptions\<close>, respectively \<open>matchScore\<close>, is
  incremented.
\<close>

definition loop_guard :: "variant \<Rightarrow> (string \<rightharpoonup> string) \<Rightarrow> nat \<times> string \<Rightarrow> bool" where
  "loop_guard v m p = (truthy (index (options v) (fst p)) \<and> truthy (m (snd p)))"

definition loop_match :: "variant \<Rightarrow> (string \<rightharpoonup> string) \<Rightarrow> nat \<times> string \<Rightarrow> bool" where
  "loop_match v m p =
     (loop_guard v m p \<and>
      map_option toLowerCase (index (options v) (fst p)) = map_option toLowerCase (m (snd p)))"

text \<open>
  The rule of the specification, in its words: one denominator unit per upsell option
  position whose option name is present in the main option mapping, one numerator unit
  when, at such a position, the candidate's value and the mapped value are the same up
  to case, and the score \<open>numerator / denominator * 100\<close>, or 0 when the denominator is 0.
\<close>

definition claimed_denominator :: "string list \<Rightarrow> (string \<rightharpoonup> string) \<Rightarrow> nat" where
  "claimed_denominator names m =
     length (filter (\<lambda>i. m (names ! i) \<noteq> None) [0..<length names])"

definition claimed_numerator :: "variant \<Rightarrow> string list \<Rightarrow> (string \<rightharpoonup> string) \<Rightarrow> nat" where
  "claimed_numerator v names m =
     length (filter (\<lambda>i. m (names ! i) \<noteq> None
                          \<and> map_option toLowerCase (index (options v) i)
                              = map_option toLowerCase (m (names ! i)))
               [0..<length names])"

definition claimed_score :: "variant \<Rightarrow> string list \<Rightarrow> (string \<rightharpoonup> string) \<Rightarrow> rat" where
  "claimed_score v names m =
     (if claimed_denominator names m = 0 then 0
      else of_nat (claimed_numerator v names m) / of_nat (claimed_denominator names m) * 100)"

text \<open>
  The rule with values in place of names: position \<open>i\<close> is comparable when the candidate
  has a non-empty value there and the option name at \<open>i\<close> has a non-empty value in the
  main option mapping; it matches when, moreover, the two values are the same up to
  case.
\<close>

definition comparable_at :: "variant \<Rightarrow> string list \<Rightarrow> (string \<rightharpoonup> string) \<Rightarrow> nat \<Rightarrow> bool" where
  "comparable_at v names m i =
     (i < length (options v) \<and> options v ! i \<noteq> []
      \<and> (case m (names ! i) of None \<Rightarrow> False | Some s \<Rightarrow> s \<noteq> []))"

definition matches_at :: "variant \<Rightarrow> string list \<Rightarrow> (string \<rightharpoonup> string) \<Rightarrow> nat \<Rightarrow> bool" where
  "matches_at v names m i =
     (comparable_at v names m i
      \<and> Some (toLowerCase (options v ! i)) = map_option toLowerCase (m (names ! i)))"

definition comparable_count :: "variant \<Rightarrow> string list \<Rightarrow> (string \<rightharpoonup> string) \<Rightarrow> nat" where
  "comparable_count v names m = length (filter (comparable_at v names m) [0..<length names])"

definition matching_count :: "variant \<Rightarrow> string list \<Rightarrow> (string \<rightharpoonup> string) \<Rightarrow> nat" where
  "matching_count v names m = length (filter (matches_at v names m) [0..<length names])"

subsection \<open>findBestMatchingUpsellVariant and findBestMatchVariant\<close>

text \<open>
  \<open>upsellVariants\<close> and \<open>upsellOptions\<close> are objects keyed by upsell product id; a missing key
  reads as \<open>undefined\<close> and \<open>|| []\<close> turns it into the empty array. The \<open>reduce\<close> keeps the
  current element only when its score is strictly greater than the best so far, starting
  from \<open>{variantId: null, matchScore: 0}\<close>. A missing or empty product id is falsy.
\<close>

definition or_empty :: "'a list option \<Rightarrow> 'a list" where
  "or_empty xs = (case xs of None \<Rightarrow> [] | Some l \<Rightarrow> l)"

definition better :: "string option \<times> rat \<Rightarrow> string option \<times> rat \<Rightarrow> string option \<times> rat" where
  "better best current = (if snd current > snd best then current else best)"

definition findBestMatchingUpsellVariant ::
  "(string \<rightharpoonup> string) \<Rightarrow> string option \<Rightarrow> (string \<rightharpoonup> variant list) \<Rightarrow>
   (string \<rightharpoonup> string list) \<Rightarrow> string option" where
  "findBestMatchingUpsellVariant mainProductVariants upsellProductId upsellVariants upsellOptions =
     (case upsellProductId of
        None \<Rightarrow> None
      | Some pid \<Rightarrow>
          if pid = [] then None
          else
            let upsellProductVariants = or_empty (upsellVariants pid);
                upsellProductOptions = or_empty (upsellOptions pid)
            in if length upsellProductVariants = 0 then None
               else fst (foldl better (None, 0)
                      (map (\<lambda>v. (Some (vid v),
                                  calculateMatchScore v upsellProductOptions mainProductVariants))
                           upsellProductVariants)))"

definition findBestMatchVariant ::
  "(string \<rightharpoonup> string) \<Rightarrow> string option \<Rightarrow> (string \<rightharpoonup> variant list) \<Rightarrow>
   (string \<rightharpoonup> string list) \<Rightarrow> variant option" where
  "findBestMatchVariant mainProductVariants upsellProductId upsellVariants upsellOptions =
     (case upsellProductId of
        None \<Rightarrow> None
      | Some pid \<Rightarrow>
          if pid = [] then None
          else
            let bestMatchVariantId =
                  findBestMatchingUpsellVariant mainProductVariants upsellProductId upsellVariants upsellOptions;
                currentUpsellVariants = upsellVariants pid;
                bestMatchVariant =
                  (case currentUpsellVariants of
                     None \<Rightarrow> None
                   | Some vs \<Rightarrow> find (\<lambda>v. Some (vid v) = bestMatchVariantId) vs)
            in (case bestMatchVariant of
                  Some v \<Rightarrow> Some v
                | None \<Rightarrow>
                    (case currentUpsellVariants of
                       None \<Rightarrow> None
                     | Some vs \<Rightarrow> index vs 0)))"

subsection \<open>mapMainProductVariants\<close>

text \<open>
  \<open>mainProductVariant.options[option.position - 1] || ''\<close>: the position is a number, so the
  index can fall outside the array on either side; the read is then \<open>undefined\<close> and the
  stored value is the empty string.
\<close>

definition value_at_position :: "variant \<Rightarrow> int \<Rightarrow> string" where
  "value_at_position v pos =
     (if 0 \<le> pos - 1 \<and> pos - 1 < int (length (options v))
      then (case index (options v) (nat (pos - 1)) of
              None \<Rightarrow> []
            | Some s \<Rightarrow> if s = [] then [] else s)
      else [])"

definition map_step :: "variant \<Rightarrow> (string \<rightharpoonup> string) \<Rightarrow> product_option \<Rightarrow> (string \<rightharpoonup> string)" where
  "map_step mainProductVariant acc opt =
     (if oname opt = [] then acc
      else acc(oname opt \<mapsto> value_at_position mainProductVariant (position opt)))"

definition mapMainProductVariants ::
  "string option \<Rightarrow> product_option list \<Rightarrow> variant list \<Rightarrow> (string \<rightharpoonup> string)" where
  "mapMainProductVariants variantId mainProductOptions mainProductVariants =
     (case find (\<lambda>v. Some (vid v) = variantId) mainProductVariants of
        None \<Rightarrow> Map.empty
      | Some mainProductVariant \<Rightarrow> foldl (map_step mainProductVariant) Map.empty mainProductOptions)"

text \<open>
  The entries \<open>mapMainProductVariants\<close> writes, in the order of the options: one per option
  that has a name.
\<close>

definition named_entries :: "variant \<Rightarrow> product_option list \<Rightarrow> (string \<times> string) list" where
  "named_entries mv opts =
     map (\<lambda>opt. (oname opt, value_at_position mv (position opt)))
       (filter (\<lambda>opt. oname opt \<noteq> []) opts)"

text \<open>
  Position \<open>i\<close> of a list of scored candidates is the first best one above \<open>s0\<close>: its score
  exceeds \<open>s0\<close>, no candidate scores higher, and every earlier candidate scores strictly
  lower.
\<close>

definition first_best :: "rat \<Rightarrow> ('a \<times> rat) list \<Rightarrow> nat \<Rightarrow> bool" where
  "first_best s0 cs i =
     (i < length cs \<and> s0 < snd (cs ! i) \<and> (\<forall>j<length cs. snd (cs ! j) \<le> snd (cs ! i))
      \<and> (\<forall>j<i. snd (cs ! j) < snd (cs ! i)))"

subsection \<open>A product page used as running example\<close>

text \<open>
  The shopper has selected \<open>Color: red\<close>, \<open>Size: Small\<close>. The upsell product \<open>brush\<close> has
  three variants scoring 50, 100 and 100; \<open>wrap\<close> has two variants scoring 0; \<open>card\<close> has
  no variant.
\<close>

definition ex_main :: "string \<rightharpoonup> string" where
  "ex_main = [''Color'' \<mapsto> ''red'', ''Size'' \<mapsto> ''Small'']"

definition ex_names :: "string list" where
  "ex_names = [''Color'', ''Size'']"

definition ex_v1 :: variant where
  "ex_v1 = \<lparr>vid = ''41'', vname = ''Brush - Red / Large'', title = ''Red / Large'',
     options = [''Red'', ''Large''], price = 500, compare_at_price = 0\<rparr>"

definition ex_v2 :: variant where
  "ex_v2 = \<lparr>vid = ''42'', vname = ''Brush - RED / small'', title = ''RED / small'',
     options = [''RED'', ''small''], price = 500, compare_at_price = 700\<rparr>"

definition ex_v3 :: variant where
  "ex_v3 = \<lparr>vid = ''43'', vname = ''Brush - red / Small'', title = ''red / Small'',
     options = [''red'', ''Small''], price = 600, compare_at_price = 0\<rparr>"

definition ex_v4 :: variant where
  "ex_v4 = \<lparr>vid = ''44'', vname = ''Wrap - Blue / Large'', title = ''Blue / Large'',
     options = [''Blue'', ''Large''], price = 600, compare_at_price = 0\<rparr>"

definition ex_v5 :: variant where
  "ex_v5 = \<lparr>vid = ''45'', vname = ''Wrap - Green / Large'', title = ''Green / Large'',
     options = [''Green'', ''Large''], price = 600, compare_at_price = 0\<rparr>"

text \<open>
  A main variant that has a value for \<open>Color\<close> only, and the mapping
  \<open>mapMainProductVariants\<close> makes of it for the options \<open>Color\<close> and \<open>Size\<close>: \<open>Size\<close> is
  mapped to the empty string.
\<close>

definition ex_v6 :: variant where
  "ex_v6 = \<lparr>vid = ''46'', vname = ''Canvas - red'', title = ''red'',
     options = [''red''], price = 900, compare_at_price = 0\<rparr>"

definition ex_main_no_size :: "string \<rightharpoonup> string" where
  "ex_main_no_size = [''Color'' \<mapsto> ''red'', ''Size'' \<mapsto> []]"

definition ex_upsellVariants :: "string \<rightharpoonup> variant list" where
  "ex_upsellVariants =
     [''brush'' \<mapsto> [ex_v1, ex_v2, ex_v3], ''wrap'' \<mapsto> [ex_v4, ex_v5], ''card'' \<mapsto> []]"

definition ex_upsellOptions :: "string \<rightharpoonup> string list" where
  "ex_upsellOptions = [''brush'' \<mapsto> ex_names, ''wrap'' \<mapsto> ex_names, ''card'' \<mapsto> ex_names]"

definition ex_options :: "product_option list" where
  "ex_options =
     [\<lparr>oname = ''Color'', position = 1, ovalues = [''Red'', ''RED'', ''red'']\<rparr>,
      \<lparr>oname = ''Size'', position = 2, ovalues = [''Large'', ''small'', ''Small'']\<rparr>,
      \<lparr>oname = ''Finish'', position = 3, ovalues = []\<rparr>,
      \<lparr>oname = [], position = 1, ovalues = []\<rparr>]"

section \<open>HideConditionManager\<close>

text \<open>
  \<open>parseSingleCondition\<close> runs the regular expression
  \<^verbatim>\<open>/^([^:]+):([^[]+)\[([^\]]+)\]$/\<close> on the entry. Each group is a run of a negated
  character class followed by the one character the class excludes, so the match has no
  choice: group 1 is the text before the first \<open>:\<close>, group 2 the text from there to the next
  \<open>[\<close>, group 3 the text from there to the next \<open>]\<close>, which must end the entry; every group
  is non-empty. \<open>regex_exec\<close> is that run of the expression, \<open>None\<close> standing for no match.
\<close>

definition regex_exec :: "string \<Rightarrow> (string \<times> string \<times> string) option" where
  "regex_exec s =
     (let g1 = takeWhile (\<lambda>c. c \<noteq> CHR '':'') s;
          r1 = dropWhile (\<lambda>c. c \<noteq> CHR '':'') s
      in if g1 = [] \<or> r1 = [] then None
         else
           let g2 = takeWhile (\<lambda>c. c \<noteq> CHR ''['') (tl r1);
               r2 = dropWhile (\<lambda>c. c \<noteq> CHR ''['') (tl r1)
           in if g2 = [] \<or> r2 = [] then None
              else
                let g3 = takeWhile (\<lambda>c. c \<noteq> CHR '']'') (tl r2);
                    r3 = dropWhile (\<lambda>c. c \<noteq> CHR '']'') (tl r2)
                in if g3 = [] \<or> r3 \<noteq> '']'' then None
                   else Some (g1, g2, g3))"

text \<open>
  After a match the three groups are non-empty strings, so the second test of the source
  (\<open>!optionName || !optionValue || !upsellProductNames\<close>) never fires; it is kept as written.
  The two \<open>console.warn\<close> calls have no effect on the result and are left out.
\<close>

definition parseSingleCondition :: "string \<Rightarrow> hide_condition option" where
  "parseSingleCondition condition =
     (case regex_exec condition of
        None \<Rightarrow> None
      | Some (name, val, upsellProductNames) \<Rightarrow>
          if name = [] \<or> val = [] \<or> upsellProductNames = [] then None
          else Some \<lparr>optionName = toLowerCase (trim name),
                     optionValue = toLowerCase (trim val),
                     upsellProducts =
                       filter (\<lambda>n. length n > 0) (map trim (split_on CHR '','' upsellProductNames))\<rparr>)"

definition parseHideConditions :: "string option \<Rightarrow> hide_condition list" where
  "parseHideConditions hideConditionsString =
     (case hideConditionsString of
        None \<Rightarrow> []
      | Some s \<Rightarrow>
          if s = [] \<or> trim s = [] then []
          else map the (filter (\<lambda>c. c \<noteq> None)
                          (map parseSingleCondition (split_on CHR '';'' s))))"

text \<open>
  The shape \<open>name:value[list]\<close> of the expression, read off its text: the entry is the three
  groups joined by \<open>:\<close>, \<open>[\<close> and a final \<open>]\<close>; the name holds no \<open>:\<close>, the value no \<open>[\<close>, the
  list no \<open>]\<close>, and none of them is empty.
\<close>

definition matches_shape :: "string \<Rightarrow> string \<Rightarrow> string \<Rightarrow> string \<Rightarrow> bool" where
  "matches_shape s name val names =
     (s = name @ '':'' @ val @ ''['' @ names @ '']''
      \<and> name \<noteq> [] \<and> CHR '':'' \<notin> set name
      \<and> val \<noteq> [] \<and> CHR ''['' \<notin> set val
      \<and> names \<noteq> [] \<and> CHR '']'' \<notin> set names)"

text \<open>The record a well-shaped entry stands for.\<close>

definition condition_of :: "string \<Rightarrow> string \<Rightarrow> string \<Rightarrow> hide_condition" where
  "condition_of name val names =
     \<lparr>optionName = toLowerCase (trim name),
      optionValue = toLowerCase (trim val),
      upsellProducts = filter (\<lambda>n. n \<noteq> []) (map trim (split_on CHR '','' names))\<rparr>"

definition ex_conditions :: string where
  "ex_conditions = ''Size:Large[Gift Wrap, Extra Brush]; Color:Red[Gift Wrap]''"

definition ex_conditions_malformed :: string where
  "ex_conditions_malformed = ''Size:Large[Gift Wrap];Color=Red;Color:Red[Card,, Brush ]''"

section \<open>CartUpsellComponent: the dismissed products\<close>

text \<open>
  The component keeps the dismissed product ids in session storage under the key
  \<open>cart-upsell-dismissed\<close>, as the JSON text of an array of strings, and mirrors them in
  the attribute \<open>data-dismissed-products\<close> of its flag element. The stored text is modelled
  by what \<open>JSON.parse\<close> makes of it: no entry, an array of strings, or a text that does not
  parse. \<open>flag\<close> is \<open>None\<close> when the component has no flag element.
\<close>

datatype storage_value = Absent | Items "string list" | Unparseable

record cart_upsell =
  stored :: storage_value
  flag :: "string list option"

text \<open>\<open>JSON.parse(sessionStorage.getItem(STORAGE_KEY) || '[]')\<close>, an error giving \<open>[]\<close>.\<close>

definition getDismissedProducts :: "cart_upsell \<Rightarrow> string list" where
  "getDismissedProducts st =
     (case stored st of Absent \<Rightarrow> [] | Items xs \<Rightarrow> xs | Unparseable \<Rightarrow> [])"

text \<open>
  \<open>sessionStorage.setItem\<close> can throw (a full or disabled storage); the error is caught and
  logged, and the storage keeps its value. \<open>ok\<close> tells whether the write goes through.
\<close>

definition setDismissedProducts :: "bool \<Rightarrow> string list \<Rightarrow> cart_upsell \<Rightarrow> cart_upsell" where
  "setDismissedProducts ok dismissed st = (if ok then st\<lparr>stored := Items dismissed\<rparr> else st)"

definition updateFlagElement :: "cart_upsell \<Rightarrow> cart_upsell" where
  "updateFlagElement st =
     (case flag st of
        None \<Rightarrow> st
      | Some _ \<Rightarrow> st\<lparr>flag := Some (getDismissedProducts st)\<rparr>)"

definition saveDismissedState :: "bool \<Rightarrow> string \<Rightarrow> cart_upsell \<Rightarrow> cart_upsell" where
  "saveDismissedState ok productId st =
     (let dismissed = getDismissedProducts st in
      if productId \<notin> set dismissed
      then updateFlagElement (setDismissedProducts ok (dismissed @ [productId]) st)
      else st)"

definition isDismissed :: "string \<Rightarrow> cart_upsell \<Rightarrow> bool" where
  "isDismissed productId st = (productId \<in> set (getDismissedProducts st))"

definition clearDismissedStates :: "cart_upsell \<Rightarrow> cart_upsell" where
  "clearDismissedStates st = updateFlagElement (st\<lparr>stored := Absent\<rparr>)"

text \<open>
  What the component does to the storage over a session: it saves a dismissal (on a
  dismiss click and after adding an upsell product to the cart) or clears them all.
\<close>

datatype storage_action = Save bool string | Clear

fun perform :: "cart_upsell \<Rightarrow> storage_action \<Rightarrow> cart_upsell" where
  "perform st (Save ok productId) = saveDismissedState ok productId st"
| "perform st Clear = clearDismissedStates st"

definition fresh_session :: cart_upsell where
  "fresh_session = \<lparr>stored = Absent, flag = Some []\<rparr>"

section \<open>ProductFormComponent: detecting upsell products in the form data\<close>

text \<open>
  The form data is a JavaScript object whose values are strings, but for \<open>properties\<close>,
  which \<open>handleSubmit\<close> sets to an object of line-item properties before the detection
  runs. An object is modelled as the list of its entries in property order
  (\<open>Object.entries\<close>), with pairwise distinct keys; setting a key the object has keeps the
  key in place, setting a new key appends it.
\<close>

datatype json = JString string | JObject "(string \<times> json) list"

definition UPSELL_PRODUCT_PREFIX :: string where
  "UPSELL_PRODUCT_PREFIX = ''_upsell_variant_''"

definition startsWith :: "string \<Rightarrow> string \<Rightarrow> bool" where
  "startsWith s p = (take (length p) s = p)"

text \<open>\<open>s.replace(pat, rep)\<close> with a string pattern: the first occurrence only.\<close>

fun replace_first :: "string \<Rightarrow> string \<Rightarrow> string \<Rightarrow> string" where
  "replace_first pat rep [] = (if pat = [] then rep else [])"
| "replace_first pat rep (c # cs) =
     (if startsWith (c # cs) pat then rep @ drop (length pat) (c # cs)
      else c # replace_first pat rep cs)"

text \<open>\<open>obj[key] = value\<close>.\<close>

fun assign :: "(string \<times> 'v) list \<Rightarrow> string \<times> 'v \<Rightarrow> (string \<times> 'v) list" where
  "assign [] (k, v) = [(k, v)]"
| "assign ((k', v') # rest) (k, v) =
     (if k' = k then (k, v) # rest else (k', v') # assign rest (k, v))"

text \<open>
  The decimal text of an array index, for the keys that spreading a string produces.
\<close>

fun digits :: "nat \<Rightarrow> string" where
  "digits n =
     (if n < 10 then [''0123456789'' ! n]
      else digits (n div 10) @ [''0123456789'' ! (n mod 10)])"

text \<open>
  \<open>{...value}\<close>: \<open>undefined\<close> spreads to nothing, an object to its entries, a string to its
  characters keyed by their indices.
\<close>

fun spread :: "json option \<Rightarrow> (string \<times> json) list" where
  "spread None = []"
| "spread (Some (JObject entries)) = entries"
| "spread (Some (JString s)) = map (\<lambda>(i, c). (digits i, JString [c])) (enumerate 0 s)"

text \<open>Truthiness of a form value: a missing value and the empty string are falsy.\<close>

fun falsy :: "json option \<Rightarrow> bool" where
  "falsy None = True"
| "falsy (Some (JString s)) = (s = [])"
| "falsy (Some (JObject entries)) = False"

record upsell_product =
  up_id :: string
  up_title :: json
  up_quantity :: nat
  up_properties :: "(string \<times> json) list"

text \<open>
  The result of the detection, with the message passed to
  \<open>window.UdoPaintsEditorManager.onError\<close> when the product title is missing.
\<close>

record detection =
  cleanFormJsonData :: "(string \<times> json) list"
  upsellProducts_of :: "upsell_product list"
  reportedError :: "string option"

definition is_upsell_key :: "string \<times> json \<Rightarrow> bool" where
  "is_upsell_key entry = startsWith (fst entry) UPSELL_PRODUCT_PREFIX"

definition upsell_item :: "json \<Rightarrow> string \<times> json \<Rightarrow> upsell_product" where
  "upsell_item productTitle entry =
     \<lparr>up_id = replace_first UPSELL_PRODUCT_PREFIX [] (fst entry),
      up_title = snd entry,
      up_quantity = 1,
      up_properties = [(''Product'', productTitle)]\<rparr>"

definition missing_title :: "(string \<times> json) list \<Rightarrow> detection" where
  "missing_title formJsonData =
     \<lparr>cleanFormJsonData = formJsonData, upsellProducts_of = [],
      reportedError = Some ''Product title is missing from form data''\<rparr>"

definition detectUpsellProducts :: "(string \<times> json) list \<Rightarrow> detection" where
  "detectUpsellProducts formJsonData =
     (let upsellProductsFormData = filter is_upsell_key formJsonData in
      if length upsellProductsFormData = 0
      then \<lparr>cleanFormJsonData = formJsonData, upsellProducts_of = [], reportedError = None\<rparr>
      else
        (case map_of formJsonData ''product-title'' of
           None \<Rightarrow> missing_title formJsonData
         | Some productTitle \<Rightarrow>
             if falsy (Some productTitle) then missing_title formJsonData
             else
               let upsellProducts = map (upsell_item productTitle) (filter is_upsell_key formJsonData);
                   cleanFormJsonData = filter (\<lambda>entry. \<not> is_upsell_key entry) formJsonData;
                   formDataProperties =
                     foldl assign (spread (map_of cleanFormJsonData ''properties''))
                       upsellProductsFormData
               in \<lparr>cleanFormJsonData =
                      assign cleanFormJsonData (''properties'', JObject formDataProperties),
                    upsellProducts_of = upsellProducts,
                    reportedError = None\<rparr>))"

text \<open>Two submitted forms: with and without the product title.\<close>

definition ex_form :: "(string \<times> json) list" where
  "ex_form =
     [(''id'', JString ''1001''),
      (''product-id'', JString ''77''),
      (''product-title'', JString ''Canvas''),
      (''quantity'', JString ''1''),
      (''_upsell_variant_42'', JString ''Brush - RED / small''),
      (''_upsell_variant_44'', JString ''Wrap - Blue / Large''),
      (''properties'', JObject [(''_feature'', JString ''editor'')])]"

definition ex_form_untitled :: "(string \<times> json) list" where
  "ex_form_untitled =
     [(''id'', JString ''1001''),
      (''_upsell_variant_42'', JString ''Brush - RED / small''),
      (''properties'', JObject [(''_feature'', JString ''editor'')])]"

section \<open>UpsellProducts: hiding and showing upsell items\<close>

text \<open>
  The part of the page the two operations touch. An upsell item (an element of class
  \<open>upsell-product__item\<close>) has the display its style sheets give it, an inline
  \<open>style.display\<close> that overrides it when set, and at most one selection checkbox, whose
  \<open>checked\<close> state is \<open>None\<close> when the item has no checkbox. Elements are identified by
  numbers, so two references to one element are two occurrences of one number. The
  component holds the set \<open>#hiddenUpsellProducts\<close> and the single field
  \<open>#originalDisplayValue\<close>; \<open>dispatched\<close> records the events dispatched on the checkboxes,
  as (item, event type), in order.
\<close>

record item =
  cssDisplay :: string
  styleDisplay :: "string option"
  checkbox :: "bool option"

definition computedDisplay :: "item \<Rightarrow> string" where
  "computedDisplay it = (case styleDisplay it of None \<Rightarrow> cssDisplay it | Some d \<Rightarrow> d)"

record upsell_component =
  items :: "nat \<Rightarrow> item"
  checkboxes :: "(string option \<times> nat option) list"
  hiddenUpsellProducts :: "string set"
  originalDisplayValue :: "string option"
  dispatched :: "(nat \<times> string) list"

definition hideUpsellProduct ::
  "string option \<Rightarrow> nat option \<Rightarrow> upsell_component \<Rightarrow> upsell_component" where
  "hideUpsellProduct upsellId itemRef st =
     (case (itemRef, upsellId) of
        (None, _) \<Rightarrow> st
      | (Some i, None) \<Rightarrow> st
      | (Some i, Some uid) \<Rightarrow>
          if uid = [] then st
          else
            let currentDisplay = computedDisplay (items st i);
                st1 = (if currentDisplay \<noteq> ''none''
                       then st\<lparr>originalDisplayValue := Some currentDisplay\<rparr> else st);
                st2 = st1\<lparr>hiddenUpsellProducts := insert uid (hiddenUpsellProducts st1)\<rparr>;
                st3 = st2\<lparr>items := (items st2)(i := (items st2 i)\<lparr>styleDisplay := Some ''none''\<rparr>)\<rparr>
            in if checkbox (items st3 i) = Some True
               then st3\<lparr>items := (items st3)(i := (items st3 i)\<lparr>checkbox := Some False\<rparr>),
                        dispatched := dispatched st3 @ [(i, ''change'')]\<rparr>
               else st3)"

definition showUpsellProduct ::
  "string option \<Rightarrow> nat option \<Rightarrow> upsell_component \<Rightarrow> upsell_component" where
  "showUpsellProduct upsellId itemRef st =
     (case itemRef of
        None \<Rightarrow> st
      | Some i \<Rightarrow>
          let st1 = st\<lparr>hiddenUpsellProducts :=
                          hiddenUpsellProducts st - {case upsellId of None \<Rightarrow> [] | Some uid \<Rightarrow> uid}\<rparr>;
              display = (case originalDisplayValue st1 of
                           None \<Rightarrow> ''block''
                         | Some d \<Rightarrow> if d \<noteq> [] then d else ''block'')
          in st1\<lparr>items := (items st1)(i := (items st1 i)\<lparr>styleDisplay := Some display\<rparr>)\<rparr>)"

definition hideAllUpsellProducts :: "upsell_component \<Rightarrow> upsell_component" where
  "hideAllUpsellProducts st =
     foldl (\<lambda>s c. hideUpsellProduct (fst c) (snd c) s) st (checkboxes st)"

definition showAllUpsellProducts :: "upsell_component \<Rightarrow> upsell_component" where
  "showAllUpsellProducts st =
     foldl (\<lambda>s c. showUpsellProduct (fst c) (snd c) s) st (checkboxes st)"

text \<open>
  No item the component has hidden is checked, and the stored display value is never
  \<open>none\<close>.
\<close>

definition hidden_unchecked :: "upsell_component \<Rightarrow> bool" where
  "hidden_unchecked st =
     (originalDisplayValue st \<noteq> Some ''none'' \<and>
      (\<forall>i. styleDisplay (items st i) = Some ''none'' \<longrightarrow> checkbox (items st i) \<noteq> Some True))"

text \<open>
  A page with two upsell items: item 0 is laid out as \<open>flex\<close>, item 1 as \<open>grid\<close>; both are
  visible and checked.
\<close>

definition ex_page :: upsell_component where
  "ex_page =
     \<lparr>items = (\<lambda>i. if i = 0
                    then \<lparr>cssDisplay = ''flex'', styleDisplay = None, checkbox = Some True\<rparr>
                    else \<lparr>cssDisplay = ''grid'', styleDisplay = None, checkbox = Some True\<rparr>),
      checkboxes = [(Some ''brush'', Some 0), (Some ''wrap'', Some 1)],
      hiddenUpsellProducts = {},
      originalDisplayValue = None,
      dispatched = []\<rparr>"

section \<open>The bridge to the editor app block\<close>

subsection \<open>The manager around \<open>window.UdoPaintsEditor\<close>\<close>

text \<open>
  \<open>window.UdoPaintsEditor\<close> is the object of the third-party app block; it is absent
  (\<open>None\<close>) until the app block has loaded. Its methods are outside this repository: a
  call either returns a value (of a type \<open>'r\<close> left open; a promise is awaited, so this is
  the value it resolves to) or throws (or rejects with) a value. Of a thrown value the
  wrappers read only \<open>error.message\<close>: the value is an object with a message (possibly
  empty), a value without a message, or \<open>null\<close>/\<open>undefined\<close>, on which reading \<open>.message\<close>
  throws in turn.
\<close>

datatype thrown = ErrorObject string | NoMessage | Nullish

datatype 'r call = Returns 'r | Throws thrown

record ('p, 'r) editor =
  ed_onAddToCart :: "'p \<Rightarrow> 'r call"
  ed_afterAddToCart :: "'p \<Rightarrow> 'r call"
  ed_isReadyToExport :: "'r call"
  ed_uploadImage :: "'r call"

text \<open>The four wrappers of the manager, as requests.\<close>

datatype 'p request = OnAddToCart 'p | AfterAddToCart 'p | IsReadyToExport | UploadImage

fun invoke :: "('p, 'r) editor \<Rightarrow> 'p request \<Rightarrow> 'r call" where
  "invoke ed (OnAddToCart params) = ed_onAddToCart ed params"
| "invoke ed (AfterAddToCart params) = ed_afterAddToCart ed params"
| "invoke ed IsReadyToExport = ed_isReadyToExport ed"
| "invoke ed UploadImage = ed_uploadImage ed"

fun fallback_message :: "'p request \<Rightarrow> string" where
  "fallback_message (OnAddToCart params) = ''Failed to call onAddToCart''"
| "fallback_message (AfterAddToCart params) = ''Failed to call afterAddToCart''"
| "fallback_message IsReadyToExport = ''Failed to call isReadyToExport''"
| "fallback_message UploadImage = ''Failed to call uploadImage''"

text \<open>
  What a wrapper's promise resolves to: the editor's own result, passed through, or the
  failure object \<open>{success: false, error}\<close>, which \<open>uploadImage\<close> extends by \<open>feature: ''\<close>.
\<close>

datatype 'r outcome = Passed 'r | Failure string "string option"

fun failure_feature :: "'p request \<Rightarrow> string option" where
  "failure_feature UploadImage = Some []"
| "failure_feature req = None"

text \<open>
  \<open>error.message || fallback\<close> in the \<open>catch\<close> block; \<open>None\<close> when reading \<open>.message\<close> throws.
\<close>

fun message_or :: "thrown \<Rightarrow> string \<Rightarrow> string option" where
  "message_or (ErrorObject m) fallback = Some (if m \<noteq> [] then m else fallback)"
| "message_or NoMessage fallback = Some fallback"
| "message_or Nullish fallback = None"

text \<open>
  The text of the \<open>TypeError\<close> the engine raises for \<open>window.UdoPaintsEditor.method\<close> when
  the object is gone.
\<close>

definition type_error_message :: string where
  "type_error_message = ''Cannot read properties of undefined''"

text \<open>
  The callback a wrapper hands to \<open>onReady\<close>: \<open>try { resolve(await editor.method(...)) }
  catch (error) { resolve({success: false, error: error.message || ...}) }\<close>. The result
  is the value passed to \<open>resolve\<close>; \<open>None\<close> when the callback ends without resolving (the
  \<open>catch\<close> block threw).
\<close>

definition run_callback :: "('p, 'r) editor option \<Rightarrow> 'p request \<Rightarrow> 'r outcome option" where
  "run_callback window_editor req =
     (case (case window_editor of
              None \<Rightarrow> Throws (ErrorObject type_error_message)
            | Some ed \<Rightarrow> invoke ed req) of
        Returns result \<Rightarrow> Some (Passed result)
      | Throws error \<Rightarrow>
          (case message_or error (fallback_message req) of
             None \<Rightarrow> None
           | Some m \<Rightarrow> Some (Failure m (failure_feature req))))"

text \<open>
  The manager: its \<open>isReady\<close> flag, its queue \<open>readyCallbacks\<close> (each callback with the
  number of the promise it resolves), the promises resolved so far, the number of
  promises created, and whether a timer for another \<open>checkAvailability\<close> is armed.
\<close>

record ('p, 'r) manager =
  isReady :: bool
  readyCallbacks :: "('p request \<times> nat) list"
  settled :: "nat \<rightharpoonup> 'r outcome"
  promises :: nat
  timerArmed :: bool

definition resolve_with :: "nat \<Rightarrow> 'r outcome option \<Rightarrow> ('p, 'r) manager \<Rightarrow> ('p, 'r) manager" where
  "resolve_with pid result st =
     (case result of
        None \<Rightarrow> st
      | Some r \<Rightarrow> if settled st pid = None then st\<lparr>settled := (settled st)(pid \<mapsto> r)\<rparr> else st)"

text \<open>
  \<open>checkAvailability\<close>, run by the constructor and then by its own timer: when the editor
  is there, the manager becomes ready and runs and drops the queued callbacks; otherwise
  it arms the timer again (\<open>setTimeout(() => this.checkAvailability(), 100)\<close>).
\<close>

definition checkAvailability :: "('p, 'r) editor option \<Rightarrow> ('p, 'r) manager \<Rightarrow> ('p, 'r) manager" where
  "checkAvailability window_editor st =
     (case window_editor of
        Some ed \<Rightarrow>
          (foldl (\<lambda>s cb. resolve_with (snd cb) (run_callback window_editor (fst cb)) s)
             (st\<lparr>isReady := True, timerArmed := False\<rparr>) (readyCallbacks st))
            \<lparr>readyCallbacks := []\<rparr>
      | None \<Rightarrow> st\<lparr>timerArmed := True\<rparr>)"

definition new_manager :: "('p, 'r) manager" where
  "new_manager =
     \<lparr>isReady = False, readyCallbacks = [], settled = Map.empty, promises = 0, timerArmed = False\<rparr>"

text \<open>
  A wrapper call (\<open>onAddToCart\<close>, \<open>afterAddToCart\<close>, \<open>isReadyToExport\<close>, \<open>uploadImage\<close>): it
  creates a promise, numbered \<open>promises st\<close>, and hands the callback to \<open>onReady\<close>, which runs
  it when the manager is ready and queues it otherwise.
\<close>

definition call_wrapper ::
  "('p, 'r) editor option \<Rightarrow> 'p request \<Rightarrow> ('p, 'r) manager \<Rightarrow> ('p, 'r) manager" where
  "call_wrapper window_editor req st =
     (let pid = promises st;
          st1 = st\<lparr>promises := pid + 1\<rparr>
      in if isReady st1 then resolve_with pid (run_callback window_editor req) st1
         else st1\<lparr>readyCallbacks := readyCallbacks st1 @ [(req, pid)]\<rparr>)"

text \<open>
  The timer chain of \<open>checkAvailability\<close>: check number \<open>k\<close> sees \<open>window k\<close>, and the next
  check runs as long as a timer is armed. The result is the manager once no timer is
  armed; \<open>None\<close> when that never happens.
\<close>

partial_function (option) poll_editor ::
  "(nat \<Rightarrow> ('p, 'r) editor option) \<Rightarrow> nat \<Rightarrow> ('p, 'r) manager \<Rightarrow> ('p, 'r) manager option" where
  "poll_editor window k st =
     (if timerArmed (checkAvailability (window k) st)
      then poll_editor window (Suc k) (checkAvailability (window k) st)
      else Some (checkAvailability (window k) st))"

text \<open>The first \<open>n\<close> checks of the chain, one after the other.\<close>

fun polls :: "(nat \<Rightarrow> ('p, 'r) editor option) \<Rightarrow> nat \<Rightarrow> ('p, 'r) manager \<Rightarrow> ('p, 'r) manager" where
  "polls window 0 st = st"
| "polls window (Suc n) st = checkAvailability (window n) (polls window n st)"

subsection \<open>\<open>waitForManager\<close> of the upsell component\<close>

text \<open>
  \<open>waitForManager\<close> checks \<open>window.UdoPaintsEditorManager?.isReady\<close> every \<open>#attemptInterval\<close>
  milliseconds; \<open>ready k\<close> tells what check number \<open>k\<close> (counted from 1, as \<open>attempts\<close> is)
  finds. The promise resolves at the first check that finds the manager ready and
  rejects at check \<open>#maxAttempts\<close>; the result records the number of checks made.
\<close>

definition maxAttempts :: nat where
  "maxAttempts = 50"

definition attemptInterval :: nat where
  "attemptInterval = 100"

datatype wait_result = Resolved nat | Rejected nat

function checkManager :: "(nat \<Rightarrow> bool) \<Rightarrow> nat \<Rightarrow> wait_result" where
  "checkManager ready attempts =
     (if ready (attempts + 1) then Resolved (attempts + 1)
      else if attempts + 1 \<ge> maxAttempts then Rejected (attempts + 1)
      else checkManager ready (attempts + 1))"
  by pat_completeness auto
termination
  by (relation "measure (\<lambda>(ready, attempts). maxAttempts - attempts)") auto

declare checkManager.simps [simp del]

definition waitForManager :: "(nat \<Rightarrow> bool) \<Rightarrow> wait_result" where
  "waitForManager ready = checkManager ready 0"

text \<open>The time the wait has taken when it settles: one interval between two checks.\<close>

fun checks_made :: "wait_result \<Rightarrow> nat" where
  "checks_made (Resolved n) = n"
| "checks_made (Rejected n) = n"

text \<open>
  An editor whose every method throws an \<open>Error\<close>, one that throws \<open>null\<close>, and the
  executions in which the editor, or the ready flag, never appears.
\<close>

definition ex_failing_editor :: "(unit, unit) editor" where
  "ex_failing_editor =
     \<lparr>ed_onAddToCart = (\<lambda>_. Throws (ErrorObject ''not initialised'')),
      ed_afterAddToCart = (\<lambda>_. Throws (ErrorObject [])),
      ed_isReadyToExport = Throws NoMessage,
      ed_uploadImage = Throws (ErrorObject ''no image'')\<rparr>"

definition never_there :: "nat \<Rightarrow> (unit, unit) editor option" where
  "never_there k = None"

definition never_ready :: "nat \<Rightarrow> bool" where
  "never_ready k = False"

text \<open>
  The states the manager can be in: the promises not yet created are unresolved, every
  queued callback belongs to a promise of its own that is created and unresolved, and
  a ready manager has an empty queue.
\<close>

definition wf_manager :: "('p, 'r) manager \<Rightarrow> bool" where
  "wf_manager st =
     ((\<forall>q. promises st \<le> q \<longrightarrow> settled st q = None)
      \<and> (\<forall>cb\<in>set (readyCallbacks st). snd cb < promises st \<and> settled st (snd cb) = None)
      \<and> distinct (map snd (readyCallbacks st))
      \<and> (isReady st \<longrightarrow> readyCallbacks st = []))"

text \<open>Running a queue of callbacks, as \<open>checkAvailability\<close> does with \<open>readyCallbacks\<close>.\<close>

definition run_queue ::
  "('p, 'r) editor option \<Rightarrow> ('p, 'r) manager \<Rightarrow> ('p request \<times> nat) list \<Rightarrow> ('p, 'r) manager" where
  "run_queue w st cbs = foldl (\<lambda>s cb. resolve_with (snd cb) (run_callback w (fst cb)) s) st cbs"

text \<open>An editor that rejects with \<open>undefined\<close>, and a ready flag that comes up at check 3.\<close>

definition ex_null_editor :: "(unit, unit) editor" where
  "ex_null_editor = ex_failing_editor\<lparr>ed_uploadImage := Throws Nullish\<rparr>"

definition ready_at_3 :: "nat \<Rightarrow> bool" where
  "ready_at_3 k = (3 \<le> k)"

section \<open>Properties of the variant matcher\<close>

lemmas ex_defs = ex_main_def ex_names_def ex_v1_def ex_v2_def ex_v3_def ex_v4_def ex_v5_def
  ex_upsellVariants_def ex_upsellOptions_def ex_options_def ex_v6_def ex_main_no_size_def

lemmas score_defs = calculateMatchScore_def index_def toLowerCase_def toLowerCase_char_def
  upper_letters_def lower_letters_def

subsection \<open>The score\<close>

lemma score_loop_counts:
  "score_loop v m names i (a, b) =
     (a + length (filter (loop_match v m) (enumerate i names)),
      b + length (filter (loop_guard v m) (enumerate i names)))"
  by (induction names arbitrary: i a b) (auto simp: loop_match_def loop_guard_def Let_def)

lemma enumerate_positions: "enumerate 0 xs = map (\<lambda>i. (i, xs ! i)) [0..<length xs]"
  by (rule nth_equalityI) (simp_all add: nth_enumerate_eq)

lemma count_positions:
  "length (filter P (enumerate 0 xs)) = length (filter (\<lambda>i. P (i, xs ! i)) [0..<length xs])"
proof -
  have "filter P (map (\<lambda>i. (i, xs ! i)) [0..<length xs])
          = map (\<lambda>i. (i, xs ! i)) (filter (\<lambda>i. P (i, xs ! i)) [0..<length xs])"
    by (simp add: filter_map comp_def)
  then show ?thesis by (simp only: enumerate_positions length_map)
qed

lemma loop_guard_comparable_at: "loop_guard v m (i, names ! i) = comparable_at v names m i"
  by (cases "m (names ! i)") (simp_all add: loop_guard_def comparable_at_def index_def)

lemma loop_match_matches_at: "loop_match v m (i, names ! i) = matches_at v names m i"
  by (cases "m (names ! i)")
    (auto simp: loop_match_def matches_at_def loop_guard_def comparable_at_def index_def)

lemma calculateMatchScore_eq:
  "calculateMatchScore v names m =
     (if comparable_count v names m = 0 then 0
      else of_nat (matching_count v names m) / of_nat (comparable_count v names m) * 100)"
proof -
  have "score_loop v m names 0 (0, 0) = (matching_count v names m, comparable_count v names m)"
    by (simp add: score_loop_counts count_positions loop_guard_comparable_at
        loop_match_matches_at matching_count_def comparable_count_def)
  then show ?thesis by (simp add: calculateMatchScore_def)
qed

lemma matching_le_comparable: "matching_count v names m \<le> comparable_count v names m"
proof -
  have "filter (matches_at v names m) [0..<length names] =
        filter (matches_at v names m) (filter (comparable_at v names m) [0..<length names])"
    by (auto simp: matches_at_def intro: filter_cong)
  then show ?thesis
    unfolding matching_count_def comparable_count_def
    by (metis length_filter_le)
qed

lemma counts_as_claimed:
  assumes h1: "\<forall>i<length names. i < length (options v) \<and> options v ! i \<noteq> []"
    and h2: "\<forall>n. m n \<noteq> Some []"
  shows "comparable_count v names m = claimed_denominator names m"
    and "matching_count v names m = claimed_numerator v names m"
proof -
  have c: "comparable_at v names m i = (m (names ! i) \<noteq> None)" if "i < length names" for i
    using h1 h2 that by (cases "m (names ! i)") (auto simp: comparable_at_def)
  have "filter (comparable_at v names m) [0..<length names]
          = filter (\<lambda>i. m (names ! i) \<noteq> None) [0..<length names]"
    by (rule filter_cong) (simp_all add: c)
  then show "comparable_count v names m = claimed_denominator names m"
    by (simp only: comparable_count_def claimed_denominator_def)
  have i: "index (options v) i = Some (options v ! i)" if "i < length names" for i
    using h1 that by (simp add: index_def)
  have "filter (matches_at v names m) [0..<length names]
          = filter (\<lambda>i. m (names ! i) \<noteq> None
                          \<and> map_option toLowerCase (index (options v) i)
                              = map_option toLowerCase (m (names ! i))) [0..<length names]"
    by (rule filter_cong) (simp_all add: matches_at_def c i)
  then show "matching_count v names m = claimed_numerator v names m"
    by (simp only: matching_count_def claimed_numerator_def)
qed

text \<open>
  C2, as the code has it. The match score of a candidate variant is
  \<open>numerator / denominator * 100\<close>, or 0 when the denominator is 0, where the denominator
  counts the upsell option positions at which the candidate has a non-empty value and
  whose option name has a non-empty value in the main option mapping, and the numerator
  counts those among them at which the two values are the same up to case. The score
  lies between 0 and 100, is 100 when every comparable option matches, and is 0 when
  none matches or when nothing is comparable. When the candidate has a non-empty value
  at every option position and the mapping holds no empty value, the score is the one
  of the specification's rule, which counts the option names present in the mapping.
\<close>

theorem calculateMatchScore_ratio:
  "calculateMatchScore v names m =
     (if comparable_count v names m = 0 then 0
      else of_nat (matching_count v names m) / of_nat (comparable_count v names m) * 100)
   \<and> matching_count v names m \<le> comparable_count v names m
   \<and> 0 \<le> calculateMatchScore v names m \<and> calculateMatchScore v names m \<le> 100
   \<and> (0 < comparable_count v names m \<and> matching_count v names m = comparable_count v names m
        \<longrightarrow> calculateMatchScore v names m = 100)
   \<and> (matching_count v names m = 0 \<longrightarrow> calculateMatchScore v names m = 0)
   \<and> (comparable_count v names m = 0 \<longrightarrow> calculateMatchScore v names m = 0)
   \<and> ((\<forall>i<length names. i < length (options v) \<and> options v ! i \<noteq> []) \<and> (\<forall>n. m n \<noteq> Some [])
        \<longrightarrow> calculateMatchScore v names m = claimed_score v names m)"
proof -
  let ?d = "comparable_count v names m" and ?n = "matching_count v names m"
  have le: "?n \<le> ?d" by (rule matching_le_comparable)
  have eq: "calculateMatchScore v names m = (if ?d = 0 then 0 else of_nat ?n / of_nat ?d * 100)"
    by (rule calculateMatchScore_eq)
  have nonneg: "0 \<le> calculateMatchScore v names m" by (simp add: eq)
  have "of_nat ?n / (of_nat ?d :: rat) * 100 \<le> 100" if "?d \<noteq> 0"
  proof -
    have "(of_nat ?n :: rat) \<le> of_nat ?d" using le by simp
    moreover have "(0 :: rat) < of_nat ?d" using that by simp
    ultimately have "of_nat ?n / (of_nat ?d :: rat) \<le> 1" by (simp add: divide_le_eq_1)
    then have "of_nat ?n / (of_nat ?d :: rat) * 100 \<le> 1 * 100"
      by (rule mult_right_mono) simp
    then show ?thesis by simp
  qed
  then have upper: "calculateMatchScore v names m \<le> 100"
    by (simp only: eq split: if_split) simp
  have full: "calculateMatchScore v names m = 100" if "0 < ?d \<and> ?n = ?d"
    using that by (simp add: eq)
  have none: "calculateMatchScore v names m = 0" if "?n = 0"
    using that by (simp add: eq)
  have empty: "calculateMatchScore v names m = 0" if "?d = 0"
    using that by (simp add: eq)
  have claimed: "calculateMatchScore v names m = claimed_score v names m"
    if "(\<forall>i<length names. i < length (options v) \<and> options v ! i \<noteq> []) \<and> (\<forall>n. m n \<noteq> Some [])"
  proof -
    from that have "?d = claimed_denominator names m" "?n = claimed_numerator v names m"
      by (simp_all add: counts_as_claimed)
    then show ?thesis by (simp only: eq claimed_score_def)
  qed
  have c5: "0 < ?d \<and> ?n = ?d \<longrightarrow> calculateMatchScore v names m = 100" using full by blast
  have c6: "?n = 0 \<longrightarrow> calculateMatchScore v names m = 0" using none by blast
  have c7: "?d = 0 \<longrightarrow> calculateMatchScore v names m = 0" using empty by blast
  have c8: "(\<forall>i<length names. i < length (options v) \<and> options v ! i \<noteq> []) \<and> (\<forall>n. m n \<noteq> Some [])
        \<longrightarrow> calculateMatchScore v names m = claimed_score v names m"
    using claimed by blast
  show ?thesis
    by (intro conjI) (fact eq le nonneg upper c5 c6 c7 c8)+
qed

lemmas count_defs = comparable_count_def matching_count_def comparable_at_def matches_at_def
  claimed_score_def claimed_denominator_def claimed_numerator_def upt_rec

text \<open>One of two comparable options matches: the score is 50.\<close>

theorem calculateMatchScore_ratio_witness:
  "calculateMatchScore ex_v1 ex_names ex_main = 50
   \<and> matching_count ex_v1 ex_names ex_main = 1
   \<and> comparable_count ex_v1 ex_names ex_main = 2
   \<and> claimed_score ex_v1 ex_names ex_main = 50"
proof -
  have n: "matching_count ex_v1 ex_names ex_main = 1"
    by (simp add: count_defs ex_defs toLowerCase_def toLowerCase_char_def
        upper_letters_def lower_letters_def)
  have d: "comparable_count ex_v1 ex_names ex_main = 2"
    by (simp add: count_defs ex_defs)
  have h: "(\<forall>i<length ex_names. i < length (options ex_v1) \<and> options ex_v1 ! i \<noteq> [])
           \<and> (\<forall>n. ex_main n \<noteq> Some [])"
    by (simp add: ex_defs less_Suc_eq)
  note t = calculateMatchScore_ratio [of ex_v1 ex_names ex_main]
  have s: "calculateMatchScore ex_v1 ex_names ex_main = 50"
    using t [THEN conjunct1] by (simp add: n d)
  have "calculateMatchScore ex_v1 ex_names ex_main = claimed_score ex_v1 ex_names ex_main"
    using t h by blast
  with s have "claimed_score ex_v1 ex_names ex_main = 50" by simp
  with s n d show ?thesis by (simp only:)
qed

text \<open>
  The main variant of the example has no value for \<open>Size\<close>, and \<open>mapMainProductVariants\<close>
  maps \<open>Size\<close> to the empty string. Both option names are present in that mapping and one
  of the two values matches, which is 50 by the specification's rule; the code does not
  count \<open>Size\<close> and scores 100. The same holds for a candidate that has no value at the
  second position.
\<close>

theorem calculateMatchScore_counterexample:
  "mapMainProductVariants (Some ''46'') (take 2 ex_options) [ex_v6] ''Color'' = Some ''red''
   \<and> mapMainProductVariants (Some ''46'') (take 2 ex_options) [ex_v6] ''Size'' = Some []
   \<and> claimed_denominator ex_names ex_main_no_size = 2
   \<and> claimed_numerator ex_v1 ex_names ex_main_no_size = 1
   \<and> claimed_score ex_v1 ex_names ex_main_no_size = 50
   \<and> calculateMatchScore ex_v1 ex_names ex_main_no_size = 100
   \<and> claimed_score (ex_v1\<lparr>options := [''Red'']\<rparr>) ex_names ex_main = 50
   \<and> calculateMatchScore (ex_v1\<lparr>options := [''Red'']\<rparr>) ex_names ex_main = 100"
proof -
  have 1: "mapMainProductVariants (Some ''46'') (take 2 ex_options) [ex_v6] ''Color'' = Some ''red''"
    "mapMainProductVariants (Some ''46'') (take 2 ex_options) [ex_v6] ''Size'' = Some []"
    by (simp_all add: mapMainProductVariants_def map_step_def value_at_position_def index_def ex_defs)
  have 2: "claimed_denominator ex_names ex_main_no_size = 2"
    "claimed_numerator ex_v1 ex_names ex_main_no_size = 1"
    by (simp_all add: count_defs ex_defs index_def toLowerCase_def toLowerCase_char_def
        upper_letters_def lower_letters_def)
  have 3: "claimed_score ex_v1 ex_names ex_main_no_size = 50"
    by (simp add: claimed_score_def 2)
  have 4: "calculateMatchScore ex_v1 ex_names ex_main_no_size = 100"
    "calculateMatchScore (ex_v1\<lparr>options := [''Red'']\<rparr>) ex_names ex_main = 100"
    by (simp_all add: ex_defs score_defs)
  have 5: "claimed_score (ex_v1\<lparr>options := [''Red'']\<rparr>) ex_names ex_main = 50"
    by (simp add: count_defs ex_defs index_def toLowerCase_def toLowerCase_char_def
        upper_letters_def lower_letters_def)
  show ?thesis
    by (intro conjI) (fact 1 2 3 4 5)+
qed

subsection \<open>The best match\<close>

lemma foldl_better_inv:
  "(foldl better b cs = b \<and> (\<forall>c\<in>set cs. snd c \<le> snd b)) \<or>
   (\<exists>i. first_best (snd b) cs i \<and> foldl better b cs = cs ! i)"
proof (induction cs rule: rev_induct)
  case Nil
  then show ?case by simp
next
  case (snoc c cs)
  let ?r = "foldl better b cs"
  have step: "foldl better b (cs @ [c]) = (if snd ?r < snd c then c else ?r)"
    by (simp add: better_def)
  from snoc show ?case
  proof (elim disjE conjE exE)
    assume r: "?r = b" and le: "\<forall>c\<in>set cs. snd c \<le> snd b"
    show ?thesis
    proof (cases "snd b < snd c")
      case True
      then have "first_best (snd b) (cs @ [c]) (length cs)"
        using le by (auto simp: first_best_def nth_append less_Suc_eq dest!: nth_mem)
      moreover have "foldl better b (cs @ [c]) = (cs @ [c]) ! length cs"
        by (simp only: step r) (use True in simp)
      ultimately show ?thesis by blast
    next
      case False
      then have "foldl better b (cs @ [c]) = b" by (simp only: step r) simp
      moreover have "\<forall>x\<in>set (cs @ [c]). snd x \<le> snd b" using le False by auto
      ultimately show ?thesis by blast
    qed
  next
    fix i assume fb: "first_best (snd b) cs i" and r: "?r = cs ! i"
    show ?thesis
    proof (cases "snd (cs ! i) < snd c")
      case True
      then have "first_best (snd b) (cs @ [c]) (length cs)"
        using fb by (fastforce simp: first_best_def nth_append less_Suc_eq)
      moreover have "foldl better b (cs @ [c]) = (cs @ [c]) ! length cs"
        by (simp only: step r) (use True in simp)
      ultimately show ?thesis by blast
    next
      case False
      then have "first_best (snd b) (cs @ [c]) i"
        using fb by (auto simp: first_best_def nth_append less_Suc_eq)
      moreover have "foldl better b (cs @ [c]) = (cs @ [c]) ! i"
        by (simp only: step r) (use False fb in \<open>simp add: first_best_def nth_append\<close>)
      ultimately show ?thesis by blast
    qed
  qed
qed

lemma find_distinct_nth:
  assumes "distinct (map f xs)" and "i < length xs"
  shows "find (\<lambda>x. f x = f (xs ! i)) xs = Some (xs ! i)"
proof -
  have "\<forall>j<i. f (xs ! j) \<noteq> f (xs ! i)"
    using assms by (auto simp: distinct_conv_nth)
  then show ?thesis
    using assms(2) by (auto simp: find_Some_iff)
qed

lemma findBestMatchVariant_unfold:
  assumes "pid \<noteq> []"
  shows "findBestMatchVariant main (Some pid) uv uo =
     (case find (\<lambda>v. Some (vid v) = findBestMatchingUpsellVariant main (Some pid) uv uo)
             (or_empty (uv pid)) of
        Some v \<Rightarrow> Some v
      | None \<Rightarrow> index (or_empty (uv pid)) 0)"
  using assms
  by (cases "uv pid")
    (auto simp: findBestMatchVariant_def or_empty_def index_def Let_def split: option.splits)

lemma findBestMatchVariant_no_product_id:
  "findBestMatchVariant main None uv uo = None"
  "findBestMatchVariant main (Some []) uv uo = None"
  by (simp_all add: findBestMatchVariant_def)

text \<open>
  C1. For an upsell product (a non-empty product id) whose variants carry pairwise
  distinct ids, the best-match selection returns \<open>null\<close> exactly when the product has no
  variant (an id the table does not know reads as no variant); it falls back to the first
  variant when no candidate scores above 0; and otherwise it returns the candidate with
  the highest score, the first one in iteration order among equals: no candidate scores
  higher and every earlier candidate scores strictly lower.
\<close>

theorem findBestMatchVariant_best:
  assumes "pid \<noteq> []" and "distinct (map vid (or_empty (uv pid)))"
  shows
    "((findBestMatchVariant main (Some pid) uv uo = None) = (or_empty (uv pid) = []))
     \<and> (or_empty (uv pid) \<noteq> [] \<and>
          (\<forall>v\<in>set (or_empty (uv pid)). calculateMatchScore v (or_empty (uo pid)) main \<le> 0)
        \<longrightarrow> findBestMatchVariant main (Some pid) uv uo = Some (or_empty (uv pid) ! 0))
     \<and> ((\<exists>v\<in>set (or_empty (uv pid)). 0 < calculateMatchScore v (or_empty (uo pid)) main)
        \<longrightarrow> (\<exists>i<length (or_empty (uv pid)).
              findBestMatchVariant main (Some pid) uv uo = Some (or_empty (uv pid) ! i)
              \<and> (\<forall>j<length (or_empty (uv pid)).
                    calculateMatchScore (or_empty (uv pid) ! j) (or_empty (uo pid)) main
                    \<le> calculateMatchScore (or_empty (uv pid) ! i) (or_empty (uo pid)) main)
              \<and> (\<forall>j<i. calculateMatchScore (or_empty (uv pid) ! j) (or_empty (uo pid)) main
                    < calculateMatchScore (or_empty (uv pid) ! i) (or_empty (uo pid)) main)))"
proof -
  let ?vs = "or_empty (uv pid)"
  let ?sc = "\<lambda>v. calculateMatchScore v (or_empty (uo pid)) main"
  let ?cs = "map (\<lambda>v. (Some (vid v), ?sc v)) ?vs"
  let ?r = "findBestMatchVariant main (Some pid) uv uo"
  let ?b = "findBestMatchingUpsellVariant main (Some pid) uv uo"
  have r: "?r = (case find (\<lambda>v. Some (vid v) = ?b) ?vs of Some v \<Rightarrow> Some v | None \<Rightarrow> index ?vs 0)"
    using assms(1) by (rule findBestMatchVariant_unfold)
  have b: "?b = fst (foldl better (None, 0) ?cs)" if "?vs \<noteq> []"
    using assms(1) that by (simp add: findBestMatchingUpsellVariant_def Let_def)
  have none_iff: "(?r = None) = (?vs = [])"
  proof
    assume "?r = None"
    then have "index ?vs 0 = None"
      unfolding r by (simp split: option.splits)
    then show "?vs = []" by (simp add: index_def split: if_splits)
  next
    assume "?vs = []"
    then show "?r = None" unfolding r by (simp add: index_def)
  qed
  have zero: "?r = Some (?vs ! 0)" if ne: "?vs \<noteq> []" and z: "\<forall>v\<in>set ?vs. ?sc v \<le> 0"
  proof -
    from foldl_better_inv [of "(None, 0)" ?cs]
    have "foldl better (None, 0) ?cs = (None, 0)"
    proof (elim disjE conjE exE)
      fix i assume "first_best (snd (None :: string option, 0 :: rat)) ?cs i"
      then have "i < length ?vs" and "0 < ?sc (?vs ! i)"
        by (auto simp: first_best_def)
      with z show ?thesis by (metis nth_mem not_le)
    qed simp
    then have "?b = None" using b [OF ne] by simp
    then have "find (\<lambda>v. Some (vid v) = ?b) ?vs = None"
      by (simp add: find_None_iff)
    then show ?thesis unfolding r using ne by (simp add: index_def)
  qed
  have pos: "\<exists>i<length ?vs. ?r = Some (?vs ! i)
       \<and> (\<forall>j<length ?vs. ?sc (?vs ! j) \<le> ?sc (?vs ! i)) \<and> (\<forall>j<i. ?sc (?vs ! j) < ?sc (?vs ! i))"
    if ex: "\<exists>v\<in>set ?vs. 0 < ?sc v"
  proof -
    from ex have ne: "?vs \<noteq> []" by auto
    from foldl_better_inv [of "(None, 0)" ?cs]
    obtain i where fb: "first_best 0 ?cs i" and f: "foldl better (None, 0) ?cs = ?cs ! i"
    proof (elim disjE conjE exE)
      assume "\<forall>c\<in>set ?cs. snd c \<le> snd (None :: string option, 0 :: rat)"
      then have "\<forall>v\<in>set ?vs. ?sc v \<le> 0" by simp
      with ex show ?thesis by (metis not_le)
    qed simp
    from fb have i: "i < length ?vs" by (simp add: first_best_def)
    then have "?b = Some (vid (?vs ! i))" using b [OF ne] f by simp
    then have "find (\<lambda>v. Some (vid v) = ?b) ?vs = Some (?vs ! i)"
      using find_distinct_nth [OF assms(2) i] by simp
    then have "?r = Some (?vs ! i)" unfolding r by simp
    moreover have "\<forall>j<length ?vs. ?sc (?vs ! j) \<le> ?sc (?vs ! i)"
      using fb by (auto simp: first_best_def)
    moreover have "\<forall>j<i. ?sc (?vs ! j) < ?sc (?vs ! i)"
      using fb i by (auto simp: first_best_def)
    ultimately show ?thesis using i by blast
  qed
  show ?thesis using none_iff zero pos by blast
qed

lemma ex_scores:
  "calculateMatchScore ex_v1 ex_names ex_main = 50"
  "calculateMatchScore ex_v2 ex_names ex_main = 100"
  "calculateMatchScore ex_v3 ex_names ex_main = 100"
  "calculateMatchScore ex_v4 ex_names ex_main = 0"
  "calculateMatchScore (ex_v5) ex_names ex_main = 0"
  by (simp_all add: ex_defs score_defs)

text \<open>
  Scores 50, 100, 100: the second variant (the first of the two best); all scores 0: the
  first variant; no variant, or an unknown product: \<open>null\<close>.
\<close>

theorem findBestMatchVariant_best_witness:
  "findBestMatchVariant ex_main (Some ''brush'') ex_upsellVariants ex_upsellOptions = Some ex_v2
   \<and> findBestMatchVariant ex_main (Some ''wrap'') ex_upsellVariants ex_upsellOptions = Some ex_v4
   \<and> findBestMatchVariant ex_main (Some ''card'') ex_upsellVariants ex_upsellOptions = None
   \<and> findBestMatchVariant ex_main (Some ''none'') ex_upsellVariants ex_upsellOptions = None"
proof -
  have ne: "''brush'' \<noteq> []" "''wrap'' \<noteq> []" "''card'' \<noteq> []" "''none'' \<noteq> []" by simp_all
  have vs: "or_empty (ex_upsellVariants ''brush'') = [ex_v1, ex_v2, ex_v3]"
    "or_empty (ex_upsellVariants ''wrap'') = [ex_v4, ex_v5]"
    "or_empty (ex_upsellVariants ''card'') = []"
    "or_empty (ex_upsellVariants ''none'') = []"
    by (simp_all add: ex_upsellVariants_def or_empty_def)
  have os: "or_empty (ex_upsellOptions ''brush'') = ex_names"
    "or_empty (ex_upsellOptions ''wrap'') = ex_names"
    by (simp_all add: ex_upsellOptions_def or_empty_def)
  have d: "distinct (map vid (or_empty (ex_upsellVariants ''brush'')))"
    "distinct (map vid (or_empty (ex_upsellVariants ''wrap'')))"
    "distinct (map vid (or_empty (ex_upsellVariants ''card'')))"
    "distinct (map vid (or_empty (ex_upsellVariants ''none'')))"
    unfolding vs by (simp_all add: ex_defs)
  note t = findBestMatchVariant_best [of _ ex_upsellVariants ex_main ex_upsellOptions]
  have card: "findBestMatchVariant ex_main (Some ''card'') ex_upsellVariants ex_upsellOptions = None"
    using t [OF ne(3) d(3)] vs(3) by simp
  have none: "findBestMatchVariant ex_main (Some ''none'') ex_upsellVariants ex_upsellOptions = None"
    using t [OF ne(4) d(4)] vs(4) by simp
  have wrap: "findBestMatchVariant ex_main (Some ''wrap'') ex_upsellVariants ex_upsellOptions = Some ex_v4"
    using t [OF ne(2) d(2)] unfolding vs os by (simp add: ex_scores)
  have ex: "\<exists>v\<in>set [ex_v1, ex_v2, ex_v3]. 0 < calculateMatchScore v ex_names ex_main"
    by (simp add: ex_scores)
  from t [OF ne(1) d(1)] ex obtain i where i: "i < length [ex_v1, ex_v2, ex_v3]"
    and r: "findBestMatchVariant ex_main (Some ''brush'') ex_upsellVariants ex_upsellOptions
            = Some ([ex_v1, ex_v2, ex_v3] ! i)"
    and mx: "\<forall>j<length [ex_v1, ex_v2, ex_v3]. calculateMatchScore ([ex_v1, ex_v2, ex_v3] ! j) ex_names ex_main
               \<le> calculateMatchScore ([ex_v1, ex_v2, ex_v3] ! i) ex_names ex_main"
    and first: "\<forall>j<i. calculateMatchScore ([ex_v1, ex_v2, ex_v3] ! j) ex_names ex_main
               < calculateMatchScore ([ex_v1, ex_v2, ex_v3] ! i) ex_names ex_main"
    unfolding vs os by blast
  from i have "i = 0 \<or> i = 1 \<or> i = 2" by (simp add: less_Suc_eq) arith
  then have "i = 1"
  proof (elim disjE)
    assume "i = 0" with mx [rule_format, of 1] show ?thesis by (simp add: ex_scores)
  next
    assume "i = 2" with first [rule_format, of 1] show ?thesis by (simp add: ex_scores)
  qed
  with r have "findBestMatchVariant ex_main (Some ''brush'') ex_upsellVariants ex_upsellOptions = Some ex_v2"
    by simp
  with wrap card none show ?thesis by simp
qed

subsection \<open>The main variant mapping\<close>

lemma foldl_map_step:
  "foldl (map_step mv) acc opts = acc ++ map_of (rev (named_entries mv opts))"
proof (induction opts arbitrary: acc)
  case Nil
  then show ?case by (simp add: named_entries_def)
next
  case (Cons opt opts)
  show ?case
  proof (cases "oname opt = []")
    case True
    then have "map_step mv acc opt = acc" by (simp add: map_step_def)
    then have "foldl (map_step mv) acc (opt # opts) = foldl (map_step mv) acc opts" by simp
    then show ?thesis using True Cons [of acc] by (simp add: named_entries_def)
  next
    case False
    let ?k = "oname opt" and ?v = "value_at_position mv (position opt)"
    have "map_step mv acc opt = acc(?k \<mapsto> ?v)" using False by (simp add: map_step_def)
    then have "foldl (map_step mv) acc (opt # opts) = foldl (map_step mv) (acc(?k \<mapsto> ?v)) opts"
      by simp
    also have "\<dots> = acc(?k \<mapsto> ?v) ++ map_of (rev (named_entries mv opts))"
      by (rule Cons)
    also have "\<dots> = acc ++ ([?k \<mapsto> ?v] ++ map_of (rev (named_entries mv opts)))"
      by (rule ext) (simp add: map_add_def split: option.splits)
    also have "[?k \<mapsto> ?v] ++ map_of (rev (named_entries mv opts))
             = map_of (rev (named_entries mv (opt # opts)))"
      using False by (simp add: named_entries_def)
    finally show ?thesis .
  qed
qed

lemma value_at_position_in_range:
  "1 \<le> p \<Longrightarrow> p \<le> int (length (options mv)) \<Longrightarrow> value_at_position mv p = options mv ! nat (p - 1)"
proof -
  assume "1 \<le> p" and "p \<le> int (length (options mv))"
  then have "nat (p - 1) < length (options mv)" and "0 \<le> p - 1" and "p - 1 < int (length (options mv))"
    by arith+
  then show ?thesis by (simp add: value_at_position_def index_def)
qed

lemma value_at_position_out_of_range:
  "p < 1 \<or> int (length (options mv)) < p \<Longrightarrow> value_at_position mv p = []"
  by (auto simp: value_at_position_def)

text \<open>
  C9. When no variant carries the given id, the main-variant mapping is empty. Otherwise,
  with \<open>mv\<close> the (first) variant of that id, the mapping has exactly the names of the
  options as keys and maps each option name to the value of \<open>mv\<close> at the option's 1-based
  position, that is \<open>options mv ! (position - 1)\<close>; a position outside the variant's values
  gives the empty string, an option without a name is skipped, and of two options of
  one name the later one wins.
\<close>

theorem mapMainProductVariants_spec:
  "((\<forall>v\<in>set variants. Some (vid v) \<noteq> variantId)
      \<longrightarrow> mapMainProductVariants variantId opts variants = Map.empty)
   \<and> (\<forall>mv. find (\<lambda>v. Some (vid v) = variantId) variants = Some mv \<longrightarrow>
         mapMainProductVariants variantId opts variants = map_of (rev (named_entries mv opts))
         \<and> dom (mapMainProductVariants variantId opts variants)
             = {oname opt | opt. opt \<in> set opts \<and> oname opt \<noteq> []}
         \<and> (distinct (map oname opts) \<longrightarrow>
              (\<forall>opt\<in>set opts. oname opt \<noteq> [] \<longrightarrow>
                 mapMainProductVariants variantId opts variants (oname opt)
                   = Some (value_at_position mv (position opt))
                 \<and> (1 \<le> position opt \<and> position opt \<le> int (length (options mv)) \<longrightarrow>
                      mapMainProductVariants variantId opts variants (oname opt)
                        = Some (options mv ! nat (position opt - 1))))))"
proof (intro conjI impI allI)
  assume "\<forall>v\<in>set variants. Some (vid v) \<noteq> variantId"
  then have "find (\<lambda>v. Some (vid v) = variantId) variants = None"
    by (simp add: find_None_iff)
  then show "mapMainProductVariants variantId opts variants = Map.empty"
    by (simp add: mapMainProductVariants_def)
next
  fix mv assume f: "find (\<lambda>v. Some (vid v) = variantId) variants = Some mv"
  then show eq: "mapMainProductVariants variantId opts variants = map_of (rev (named_entries mv opts))"
    by (simp add: mapMainProductVariants_def foldl_map_step)
  show "dom (mapMainProductVariants variantId opts variants)
          = {oname opt | opt. opt \<in> set opts \<and> oname opt \<noteq> []}"
    unfolding eq by (auto simp: dom_map_of_conv_image_fst named_entries_def image_iff)
  {
    assume d: "distinct (map oname opts)"
    have d': "distinct (map fst (rev (named_entries mv opts)))"
      using d by (simp add: named_entries_def rev_map [symmetric] comp_def distinct_map_filter)
    show "\<forall>opt\<in>set opts. oname opt \<noteq> [] \<longrightarrow>
            mapMainProductVariants variantId opts variants (oname opt)
              = Some (value_at_position mv (position opt))
            \<and> (1 \<le> position opt \<and> position opt \<le> int (length (options mv)) \<longrightarrow>
                 mapMainProductVariants variantId opts variants (oname opt)
                   = Some (options mv ! nat (position opt - 1)))"
    proof (intro ballI impI)
      fix opt assume "opt \<in> set opts" and "oname opt \<noteq> []"
      then have "(oname opt, value_at_position mv (position opt)) \<in> set (rev (named_entries mv opts))"
        by (auto simp: named_entries_def)
      with d' have v: "mapMainProductVariants variantId opts variants (oname opt)
              = Some (value_at_position mv (position opt))"
        unfolding eq by (rule map_of_is_SomeI)
      then show "mapMainProductVariants variantId opts variants (oname opt)
              = Some (value_at_position mv (position opt))
            \<and> (1 \<le> position opt \<and> position opt \<le> int (length (options mv)) \<longrightarrow>
                 mapMainProductVariants variantId opts variants (oname opt)
                   = Some (options mv ! nat (position opt - 1)))"
        by (simp add: value_at_position_in_range)
    qed
  }
qed

text \<open>
  The shopper's variant \<open>42\<close> of the example: \<open>Color\<close> and \<open>Size\<close> map to its two values,
  \<open>Finish\<close> (position 3 of 2 values) to the empty string; an unknown id gives the empty
  mapping.
\<close>

theorem mapMainProductVariants_spec_witness:
  "mapMainProductVariants (Some ''42'') ex_options [ex_v1, ex_v2, ex_v3] ''Color'' = Some ''RED''
   \<and> mapMainProductVariants (Some ''42'') ex_options [ex_v1, ex_v2, ex_v3] ''Size'' = Some ''small''
   \<and> mapMainProductVariants (Some ''42'') ex_options [ex_v1, ex_v2, ex_v3] ''Finish'' = Some []
   \<and> dom (mapMainProductVariants (Some ''42'') ex_options [ex_v1, ex_v2, ex_v3])
        = {''Color'', ''Size'', ''Finish''}
   \<and> mapMainProductVariants (Some ''99'') ex_options [ex_v1, ex_v2, ex_v3] = Map.empty
   \<and> mapMainProductVariants None ex_options [ex_v1, ex_v2, ex_v3] = Map.empty"
proof -
  note t = mapMainProductVariants_spec [of "[ex_v1, ex_v2, ex_v3]" _ ex_options]
  have f: "find (\<lambda>v. Some (vid v) = Some ''42'') [ex_v1, ex_v2, ex_v3] = Some ex_v2"
    by (simp add: ex_defs)
  have m: "mapMainProductVariants (Some ''42'') ex_options [ex_v1, ex_v2, ex_v3]
             = map_of (rev (named_entries ex_v2 ex_options))"
    using t [of "Some ''42''"] f by blast
  have e: "rev (named_entries ex_v2 ex_options)
             = [(''Finish'', []), (''Size'', ''small''), (''Color'', ''RED'')]"
    by (simp add: named_entries_def value_at_position_def index_def ex_defs)
  have "mapMainProductVariants (Some ''99'') ex_options [ex_v1, ex_v2, ex_v3] = Map.empty"
    using t [of "Some ''99''"] by (simp add: ex_defs)
  moreover have "mapMainProductVariants None ex_options [ex_v1, ex_v2, ex_v3] = Map.empty"
    using t [of None] by simp
  moreover have "dom (mapMainProductVariants (Some ''42'') ex_options [ex_v1, ex_v2, ex_v3])
        = {''Color'', ''Size'', ''Finish''}"
    unfolding m e by auto
  ultimately show ?thesis unfolding m e by simp
qed

section \<open>Properties of the hide-condition parser\<close>

lemma regex_exec_shape:
  assumes "matches_shape s name val names"
  shows "regex_exec s = Some (name, val, names)"
proof -
  from assms have s: "s = name @ CHR '':'' # val @ CHR ''['' # names @ '']''"
    and n: "name \<noteq> []" "\<forall>c\<in>set name. c \<noteq> CHR '':''"
    and v: "val \<noteq> []" "\<forall>c\<in>set val. c \<noteq> CHR ''[''"
    and l: "names \<noteq> []" "\<forall>c\<in>set names. c \<noteq> CHR '']''"
    by (auto simp: matches_shape_def)
  have 1: "takeWhile (\<lambda>c. c \<noteq> CHR '':'') s = name"
    "dropWhile (\<lambda>c. c \<noteq> CHR '':'') s = CHR '':'' # val @ CHR ''['' # names @ '']''"
    using n(2) unfolding s by simp_all
  have 2: "takeWhile (\<lambda>c. c \<noteq> CHR ''['') (val @ CHR ''['' # names @ '']'') = val"
    "dropWhile (\<lambda>c. c \<noteq> CHR ''['') (val @ CHR ''['' # names @ '']'') = CHR ''['' # names @ '']''"
    using v(2) by simp_all
  have 3: "takeWhile (\<lambda>c. c \<noteq> CHR '']'') (names @ '']'') = names"
    "dropWhile (\<lambda>c. c \<noteq> CHR '']'') (names @ '']'') = '']''"
    using l(2) by simp_all
  show ?thesis
    unfolding regex_exec_def Let_def 1 list.sel 2 3 using n(1) v(1) l(1) by simp
qed

lemma split_at_first:
  assumes "dropWhile (\<lambda>c. c \<noteq> a) s \<noteq> []"
  shows "s = takeWhile (\<lambda>c. c \<noteq> a) s @ a # tl (dropWhile (\<lambda>c. c \<noteq> a) s)"
    and "a \<notin> set (takeWhile (\<lambda>c. c \<noteq> a) s)"
proof -
  have "hd (dropWhile (\<lambda>c. c \<noteq> a) s) = a"
    using hd_dropWhile [OF assms] by simp
  then have "dropWhile (\<lambda>c. c \<noteq> a) s = a # tl (dropWhile (\<lambda>c. c \<noteq> a) s)"
    using assms by (metis list.collapse)
  then show "s = takeWhile (\<lambda>c. c \<noteq> a) s @ a # tl (dropWhile (\<lambda>c. c \<noteq> a) s)"
    by (metis takeWhile_dropWhile_id)
  show "a \<notin> set (takeWhile (\<lambda>c. c \<noteq> a) s)"
    by (auto dest: set_takeWhileD)
qed

lemma regex_exec_Some:
  assumes "regex_exec s = Some (name, val, names)"
  shows "matches_shape s name val names"
proof -
  let ?r1 = "dropWhile (\<lambda>c. c \<noteq> CHR '':'') s"
  let ?r2 = "dropWhile (\<lambda>c. c \<noteq> CHR ''['') (tl ?r1)"
  let ?r3 = "dropWhile (\<lambda>c. c \<noteq> CHR '']'') (tl ?r2)"
  from assms have g1: "name = takeWhile (\<lambda>c. c \<noteq> CHR '':'') s" "name \<noteq> []" "?r1 \<noteq> []"
    and g2: "val = takeWhile (\<lambda>c. c \<noteq> CHR ''['') (tl ?r1)" "val \<noteq> []" "?r2 \<noteq> []"
    and g3: "names = takeWhile (\<lambda>c. c \<noteq> CHR '']'') (tl ?r2)" "names \<noteq> []" "?r3 = '']''"
    by (auto simp: regex_exec_def Let_def split: if_splits)
  have a: "s = name @ CHR '':'' # tl ?r1" "CHR '':'' \<notin> set name"
    using split_at_first [OF g1(3)] g1(1) by simp_all
  have b: "tl ?r1 = val @ CHR ''['' # tl ?r2" "CHR ''['' \<notin> set val"
    using split_at_first [OF g2(3)] g2(1) by simp_all
  have "?r3 \<noteq> []" using g3(3) by simp
  then have c: "tl ?r2 = names @ CHR '']'' # tl ?r3" "CHR '']'' \<notin> set names"
    using split_at_first [of "CHR '']''" "tl ?r2"] g3(1) by simp_all
  have "tl ?r3 = []" using g3(3) by simp
  with a b c have "s = name @ '':'' @ val @ ''['' @ names @ '']''" by simp
  with a(2) b(2) c(2) g1(2) g2(2) g3(2) show ?thesis by (simp add: matches_shape_def)
qed

lemma regex_exec_iff:
  "regex_exec s = Some (name, val, names) \<longleftrightarrow> matches_shape s name val names"
  using regex_exec_shape regex_exec_Some by blast

lemma parseSingleCondition_shape:
  assumes "matches_shape e name val names"
  shows "parseSingleCondition e = Some (condition_of name val names)"
proof -
  have "regex_exec e = Some (name, val, names)" using assms by (rule regex_exec_shape)
  moreover have "name \<noteq> []" "val \<noteq> []" "names \<noteq> []"
    using assms by (simp_all add: matches_shape_def)
  ultimately show ?thesis by (simp add: parseSingleCondition_def condition_of_def)
qed

lemma parseSingleCondition_no_shape:
  assumes "\<nexists>name val names. matches_shape e name val names"
  shows "parseSingleCondition e = None"
proof (cases "regex_exec e")
  case None
  then show ?thesis by (simp add: parseSingleCondition_def)
next
  case (Some g)
  then obtain name val names where "regex_exec e = Some (name, val, names)"
    by (cases g) auto
  with assms show ?thesis using regex_exec_Some by blast
qed

lemma split_on_not_Nil: "split_on c s \<noteq> []"
  by (induction s) (auto split: list.splits)

lemma split_on_append:
  "split_on c (a @ c # b) = split_on c a @ split_on c b"
  by (induction a) (auto simp: split_on_not_Nil split: list.splits)

lemma map_the_filter: "map the (filter (\<lambda>c. c \<noteq> None) (map f xs)) = List.map_filter f xs"
  by (induction xs) (auto simp: List.map_filter_def)

lemma toLowerCase_char_not_upper: "toLowerCase_char c \<notin> set upper_letters"
proof (cases "c \<in> set upper_letters")
  case True
  then show ?thesis
    by (auto simp: toLowerCase_char_def upper_letters_def lower_letters_def)
next
  case False
  then have "map_of (zip upper_letters lower_letters) c = None"
    by (simp add: upper_letters_def lower_letters_def)
  with False show ?thesis by (simp add: toLowerCase_char_def)
qed

lemma toLowerCase_no_upper: "set (toLowerCase s) \<inter> set upper_letters = {}"
  using toLowerCase_char_not_upper by (auto simp: toLowerCase_def)

lemma trim_trimmed:
  "trim s = [] \<or> (\<not> isWhitespace (hd (trim s)) \<and> \<not> isWhitespace (last (trim s)))"
proof (cases "trim s = []")
  case True
  then show ?thesis by simp
next
  case False
  let ?a = "dropWhile isWhitespace s"
  let ?b = "dropWhile isWhitespace (rev ?a)"
  from False have b: "?b \<noteq> []" by (simp add: trim_def)
  have a: "?a \<noteq> []"
  proof
    assume e: "?a = []"
    have "?b = []" unfolding e by simp
    with b show False by contradiction
  qed
  have "last (trim s) = hd ?b" using b by (simp add: trim_def last_rev)
  then have l: "\<not> isWhitespace (last (trim s))" using hd_dropWhile [OF b] by simp
  have "hd (trim s) = last ?b" using b by (simp add: trim_def hd_rev)
  also have "\<dots> = last (rev ?a)"
    using b by (metis last_appendR takeWhile_dropWhile_id)
  also have "\<dots> = hd ?a" using a by (simp add: last_rev)
  finally have "\<not> isWhitespace (hd (trim s))" using hd_dropWhile [OF a] by simp
  with l show ?thesis by simp
qed

text \<open>
  C3. The hide-condition parser returns the empty list for a missing, empty or blank
  string. Otherwise it splits the string on \<open>;\<close> and returns, in order, one record per
  entry of the shape \<open>name:value[list]\<close>, skipping every other entry: the entries before
  and after a \<open>;\<close> are parsed independently of each other. The record of a well-shaped
  entry has the name and the value trimmed and lower-cased, and as products the
  comma-separated pieces of the bracketed list, trimmed, the empty ones dropped. No
  upper-case letter is left in name and value, and no product name starts or ends with
  white space.
\<close>

theorem parseHideConditions_spec:
  "parseHideConditions None = []
   \<and> (trim s = [] \<longrightarrow> parseHideConditions (Some s) = [])
   \<and> (trim s \<noteq> [] \<longrightarrow>
        parseHideConditions (Some s) = List.map_filter parseSingleCondition (split_on CHR '';'' s))
   \<and> (trim (a @ CHR '';'' # b) \<noteq> [] \<longrightarrow>
        parseHideConditions (Some (a @ CHR '';'' # b)) =
          List.map_filter parseSingleCondition (split_on CHR '';'' a)
          @ List.map_filter parseSingleCondition (split_on CHR '';'' b))
   \<and> (\<forall>e name val names. matches_shape e name val names \<longrightarrow>
         parseSingleCondition e = Some (condition_of name val names))
   \<and> (\<forall>e. (\<nexists>name val names. matches_shape e name val names) \<longrightarrow> parseSingleCondition e = None)
   \<and> (\<forall>name val names.
         set (optionName (condition_of name val names)) \<inter> set upper_letters = {}
         \<and> set (optionValue (condition_of name val names)) \<inter> set upper_letters = {}
         \<and> (\<forall>p\<in>set (upsellProducts (condition_of name val names)).
               p \<noteq> [] \<and> \<not> isWhitespace (hd p) \<and> \<not> isWhitespace (last p)))"
proof -
  have 1: "parseHideConditions None = []" by (simp add: parseHideConditions_def)
  have 2: "parseHideConditions (Some s) = []" if "trim s = []" for s
    using that by (simp add: parseHideConditions_def)
  have 3: "parseHideConditions (Some s) = List.map_filter parseSingleCondition (split_on CHR '';'' s)"
    if "trim s \<noteq> []" for s
  proof -
    from that have "s \<noteq> []" by (auto simp: trim_def)
    with that have "\<not> (s = [] \<or> trim s = [])" by simp
    then show ?thesis
      unfolding parseHideConditions_def by (simp only: option.case if_False map_the_filter)
  qed
  have 4: "parseHideConditions (Some (a @ CHR '';'' # b)) =
          List.map_filter parseSingleCondition (split_on CHR '';'' a)
          @ List.map_filter parseSingleCondition (split_on CHR '';'' b)"
    if "trim (a @ CHR '';'' # b) \<noteq> []"
    using 3 [OF that] by (simp add: split_on_append List.map_filter_def)
  have 7: "p \<noteq> [] \<and> \<not> isWhitespace (hd p) \<and> \<not> isWhitespace (last p)"
    if "p \<in> set (upsellProducts (condition_of name val names))" for p name val names
  proof -
    from that obtain q where "p = trim q" and "p \<noteq> []" by (auto simp: condition_of_def)
    then show ?thesis using trim_trimmed [of q] by simp
  qed
  have 8: "set (optionName (condition_of name val names)) \<inter> set upper_letters = {}"
    "set (optionValue (condition_of name val names)) \<inter> set upper_letters = {}" for name val names
    by (simp_all add: condition_of_def toLowerCase_no_upper)
  show ?thesis
    using 1 2 3 4 parseSingleCondition_shape parseSingleCondition_no_shape 7 8
    by (intro conjI allI impI ballI) blast+
qed

text \<open>
  The example of the specification, and a string whose middle entry has no brackets and
  whose last entry has an empty product name.
\<close>

theorem parseHideConditions_spec_witness:
  "parseHideConditions (Some ex_conditions) =
     [\<lparr>optionName = ''size'', optionValue = ''large'',
        upsellProducts = [''Gift Wrap'', ''Extra Brush'']\<rparr>,
      \<lparr>optionName = ''color'', optionValue = ''red'', upsellProducts = [''Gift Wrap'']\<rparr>]
   \<and> parseHideConditions (Some ex_conditions_malformed) =
     [\<lparr>optionName = ''size'', optionValue = ''large'', upsellProducts = [''Gift Wrap'']\<rparr>,
      \<lparr>optionName = ''color'', optionValue = ''red'', upsellProducts = [''Card'', ''Brush'']\<rparr>]
   \<and> parseHideConditions (Some ''  '') = []
   \<and> parseHideConditions None = []"
proof -
  note defs = List.map_filter_def parseSingleCondition_def regex_exec_def trim_def
    isWhitespace_def toLowerCase_def toLowerCase_char_def upper_letters_def lower_letters_def
  have t1: "trim ex_conditions \<noteq> []" and t2: "trim ex_conditions_malformed \<noteq> []"
    and t3: "trim ''  '' = []"
    by (simp_all add: ex_conditions_def ex_conditions_malformed_def trim_def isWhitespace_def)
  have "parseHideConditions (Some ex_conditions)
          = List.map_filter parseSingleCondition (split_on CHR '';'' ex_conditions)"
    using parseHideConditions_spec [of ex_conditions] t1 by blast
  then have 1: "parseHideConditions (Some ex_conditions) =
     [\<lparr>optionName = ''size'', optionValue = ''large'',
        upsellProducts = [''Gift Wrap'', ''Extra Brush'']\<rparr>,
      \<lparr>optionName = ''color'', optionValue = ''red'', upsellProducts = [''Gift Wrap'']\<rparr>]"
    by (simp add: ex_conditions_def defs)
  have "parseHideConditions (Some ex_conditions_malformed)
          = List.map_filter parseSingleCondition (split_on CHR '';'' ex_conditions_malformed)"
    using parseHideConditions_spec [of ex_conditions_malformed] t2 by blast
  then have 2: "parseHideConditions (Some ex_conditions_malformed) =
     [\<lparr>optionName = ''size'', optionValue = ''large'', upsellProducts = [''Gift Wrap'']\<rparr>,
      \<lparr>optionName = ''color'', optionValue = ''red'', upsellProducts = [''Card'', ''Brush'']\<rparr>]"
    by (simp add: ex_conditions_malformed_def defs)
  have 3: "parseHideConditions (Some ''  '') = []"
    using parseHideConditions_spec [of "''  ''"] t3 by blast
  have 4: "parseHideConditions None = []"
    using parseHideConditions_spec [of "[]"] by blast
  from 1 2 3 4 show ?thesis by (simp only:)
qed

section \<open>Properties of the dismissed products\<close>

lemma getDismissedProducts_updateFlagElement [simp]:
  "getDismissedProducts (updateFlagElement st) = getDismissedProducts st"
  by (cases "flag st") (simp_all add: updateFlagElement_def getDismissedProducts_def)

lemma getDismissedProducts_setDismissedProducts [simp]:
  "getDismissedProducts (setDismissedProducts ok xs st) = (if ok then xs else getDismissedProducts st)"
  by (simp add: setDismissedProducts_def getDismissedProducts_def)

lemma saveDismissedState_present:
  "p \<in> set (getDismissedProducts st) \<Longrightarrow> saveDismissedState ok p st = st"
  by (simp add: saveDismissedState_def)

lemma saveDismissedState_absent:
  "p \<notin> set (getDismissedProducts st) \<Longrightarrow>
   saveDismissedState ok p st =
     updateFlagElement (setDismissedProducts ok (getDismissedProducts st @ [p]) st)"
  by (simp add: saveDismissedState_def)

lemma getDismissedProducts_save:
  "getDismissedProducts (saveDismissedState ok p st) =
     (if ok \<and> p \<notin> set (getDismissedProducts st) then getDismissedProducts st @ [p]
      else getDismissedProducts st)"
  by (cases "p \<in> set (getDismissedProducts st)")
    (simp_all add: saveDismissedState_present saveDismissedState_absent)

lemma updateFlagElement_after_update:
  "updateFlagElement (setDismissedProducts ok xs (updateFlagElement st)) =
   updateFlagElement (setDismissedProducts ok xs st)"
  by (cases "flag st"; cases ok)
    (simp_all add: updateFlagElement_def setDismissedProducts_def getDismissedProducts_def)

lemma saveDismissedState_twice:
  "saveDismissedState ok2 p (saveDismissedState ok1 p st) = saveDismissedState (ok1 \<or> ok2) p st"
proof (cases "p \<in> set (getDismissedProducts st)")
  case True
  then show ?thesis by (simp add: saveDismissedState_present)
next
  case False
  show ?thesis
  proof (cases ok1)
    case True
    then have "p \<in> set (getDismissedProducts (saveDismissedState ok1 p st))"
      using False by (simp add: getDismissedProducts_save)
    then have "saveDismissedState ok2 p (saveDismissedState ok1 p st) = saveDismissedState ok1 p st"
      by (rule saveDismissedState_present)
    with True show ?thesis by simp
  next
    case ok1: False
    have s1: "saveDismissedState ok1 p st = updateFlagElement st"
      using False ok1 by (simp add: saveDismissedState_absent setDismissedProducts_def)
    have "saveDismissedState ok2 p (updateFlagElement st) =
          updateFlagElement (setDismissedProducts ok2 (getDismissedProducts st @ [p]) (updateFlagElement st))"
      using False by (simp add: saveDismissedState_absent)
    also have "\<dots> = updateFlagElement (setDismissedProducts ok2 (getDismissedProducts st @ [p]) st)"
      by (rule updateFlagElement_after_update)
    also have "\<dots> = saveDismissedState ok2 p st"
      using False by (simp add: saveDismissedState_absent)
    finally show ?thesis using ok1 s1 by simp
  qed
qed

lemma distinct_save:
  "distinct (getDismissedProducts st) \<Longrightarrow> distinct (getDismissedProducts (saveDismissedState ok p st))"
  by (simp add: getDismissedProducts_save)

lemma distinct_perform:
  "distinct (getDismissedProducts st) \<Longrightarrow> distinct (getDismissedProducts (perform st a))"
proof (cases a)
  case (Save ok p)
  assume "distinct (getDismissedProducts st)"
  with Save show ?thesis by (simp add: distinct_save)
next
  case Clear
  then show ?thesis
    by (simp add: clearDismissedStates_def updateFlagElement_def getDismissedProducts_def
        split: option.splits)
qed

lemma distinct_foldl_perform:
  "distinct (getDismissedProducts st) \<Longrightarrow> distinct (getDismissedProducts (foldl perform st as))"
  by (induction as arbitrary: st) (simp_all add: distinct_perform)

text \<open>
  C10. Saving a dismissal appends the product id to the stored list only when the id is
  not in it yet (and the list is otherwise left as it is), so saving the same id again
  changes nothing: the second call leaves the state of the first, whether or not its
  own write would go through. A stored list without duplicates stays without
  duplicates, and so the list of a session that starts with an empty storage never holds
  an id twice, whatever is saved and cleared.
\<close>

theorem saveDismissedState_idempotent:
  "saveDismissedState ok p (saveDismissedState ok p st) = saveDismissedState ok p st
   \<and> saveDismissedState ok' p (saveDismissedState True p st) = saveDismissedState True p st
   \<and> getDismissedProducts (saveDismissedState True p st) =
       (if p \<in> set (getDismissedProducts st) then getDismissedProducts st
        else getDismissedProducts st @ [p])
   \<and> isDismissed p (saveDismissedState True p st)
   \<and> (distinct (getDismissedProducts st) \<longrightarrow>
        distinct (getDismissedProducts (saveDismissedState ok p st)))
   \<and> distinct (getDismissedProducts (foldl perform fresh_session as))"
proof -
  have "distinct (getDismissedProducts fresh_session)"
    by (simp add: fresh_session_def getDismissedProducts_def)
  then have "distinct (getDismissedProducts (foldl perform fresh_session as))"
    by (rule distinct_foldl_perform)
  then show ?thesis
    using saveDismissedState_twice [of ok p ok st] saveDismissedState_twice [of ok' p True st]
    by (simp add: getDismissedProducts_save distinct_save isDismissed_def)
qed

text \<open>Dismissing \<open>p1\<close>, \<open>p2\<close> and \<open>p1\<close> again in a fresh session stores \<open>p1\<close>, \<open>p2\<close>.\<close>

theorem saveDismissedState_idempotent_witness:
  "getDismissedProducts (saveDismissedState True ''p1'' fresh_session) = [''p1'']
   \<and> saveDismissedState True ''p1'' (saveDismissedState True ''p1'' fresh_session)
       = \<lparr>stored = Items [''p1''], flag = Some [''p1'']\<rparr>
   \<and> distinct (getDismissedProducts (saveDismissedState True ''p1'' fresh_session))
   \<and> getDismissedProducts
        (foldl perform fresh_session [Save True ''p1'', Save True ''p2'', Save True ''p1''])
       = [''p1'', ''p2'']"
proof -
  have d: "distinct (getDismissedProducts fresh_session)"
    by (simp add: fresh_session_def getDismissedProducts_def)
  have s: "saveDismissedState True ''p1'' fresh_session
             = \<lparr>stored = Items [''p1''], flag = Some [''p1'']\<rparr>"
    by (simp add: saveDismissedState_def setDismissedProducts_def updateFlagElement_def
        getDismissedProducts_def fresh_session_def)
  have r: "getDismissedProducts
        (foldl perform fresh_session [Save True ''p1'', Save True ''p2'', Save True ''p1''])
       = [''p1'', ''p2'']"
    by (simp add: getDismissedProducts_save) (simp add: fresh_session_def getDismissedProducts_def)
  show ?thesis
    using saveDismissedState_idempotent [of True "''p1''" fresh_session True "[]"] d
    unfolding s r by (simp add: getDismissedProducts_def)
qed

section \<open>Properties of the upsell detection\<close>

lemma map_of_assign: "map_of (assign xs (k, v)) = (map_of xs)(k \<mapsto> v)"
  by (induction xs) (auto simp: fun_eq_iff)

lemma map_of_assign': "map_of (assign xs e) = (map_of xs)(fst e \<mapsto> snd e)"
  by (cases e) (simp add: map_of_assign)

lemma map_of_foldl_assign:
  "map_of (foldl assign xs ys) = map_of xs ++ map_of (rev ys)"
proof (induction ys arbitrary: xs)
  case Nil
  then show ?case by simp
next
  case (Cons y ys)
  have "map_of (foldl assign xs (y # ys)) = (map_of xs)(fst y \<mapsto> snd y) ++ map_of (rev ys)"
    by (simp only: foldl.simps Cons map_of_assign')
  also have "\<dots> = map_of xs ++ ([fst y \<mapsto> snd y] ++ map_of (rev ys))"
    by (rule ext) (simp add: map_add_def split: option.splits)
  also have "[fst y \<mapsto> snd y] ++ map_of (rev ys) = map_of (rev (y # ys))"
    by (cases y) simp
  finally show ?case .
qed

lemma map_of_filter_key:
  "map_of (filter (\<lambda>e. P (fst e)) xs) k = (if P k then map_of xs k else None)"
  by (induction xs) auto

lemma replace_first_prefix:
  "startsWith s p \<Longrightarrow> replace_first p [] s = drop (length p) s"
  by (cases s) (auto simp: startsWith_def)

lemma upsell_item_eq:
  "is_upsell_key e \<Longrightarrow>
   upsell_item t e = \<lparr>up_id = drop (length UPSELL_PRODUCT_PREFIX) (fst e), up_title = snd e,
                       up_quantity = 1, up_properties = [(''Product'', t)]\<rparr>"
  by (simp add: upsell_item_def is_upsell_key_def replace_first_prefix)

lemma properties_not_upsell: "\<not> startsWith ''properties'' UPSELL_PRODUCT_PREFIX"
  by (simp add: startsWith_def UPSELL_PRODUCT_PREFIX_def)

lemma detect_none:
  assumes "\<forall>e\<in>set form. \<not> is_upsell_key e"
  shows "detectUpsellProducts form =
           \<lparr>cleanFormJsonData = form, upsellProducts_of = [], reportedError = None\<rparr>"
proof -
  have "filter is_upsell_key form = []" using assms by (simp add: filter_empty_conv)
  then show ?thesis by (simp add: detectUpsellProducts_def)
qed

lemma detect_untitled:
  assumes "\<exists>e\<in>set form. is_upsell_key e" and "falsy (map_of form ''product-title'')"
  shows "detectUpsellProducts form = missing_title form"
proof -
  have "filter is_upsell_key form \<noteq> []" using assms(1) by (simp add: filter_empty_conv)
  then show ?thesis using assms(2)
    by (cases "map_of form ''product-title''") (simp_all add: detectUpsellProducts_def Let_def)
qed

lemma detect_titled:
  assumes "\<exists>e\<in>set form. is_upsell_key e" and "map_of form ''product-title'' = Some t"
    and "\<not> falsy (Some t)"
  shows "detectUpsellProducts form =
     \<lparr>cleanFormJsonData =
        assign (filter (\<lambda>e. \<not> is_upsell_key e) form)
          (''properties'',
           JObject (foldl assign (spread (map_of (filter (\<lambda>e. \<not> is_upsell_key e) form) ''properties''))
                     (filter is_upsell_key form))),
      upsellProducts_of = map (upsell_item t) (filter is_upsell_key form),
      reportedError = None\<rparr>"
proof -
  have "filter is_upsell_key form \<noteq> []" using assms(1) by (simp add: filter_empty_conv)
  then show ?thesis using assms(2,3)
    by (simp add: detectUpsellProducts_def Let_def)
qed

text \<open>
  C6, as the code has it. The form data is an object (distinct keys). When no field has
  the reserved prefix, the detection returns the form data unchanged with no upsell
  product. When a field has the prefix but the form data has no product title (missing
  or empty), it reports an error and again returns the form data unchanged, prefixed
  fields included, with no upsell product. Otherwise every prefixed field becomes an
  upsell line item, in order: the key without the prefix as id, the field's value as
  title, quantity 1 and the property \<open>Product\<close> holding the product title; the primary
  line item loses the prefixed fields at its top level, keeps every other field but
  \<open>properties\<close>, and its \<open>properties\<close> become an object holding the former properties and,
  added to them, every prefixed field with its value.
\<close>

theorem detectUpsellProducts_spec:
  assumes "distinct (map fst form)"
  shows
    "((\<forall>e\<in>set form. \<not> is_upsell_key e) \<longrightarrow>
        detectUpsellProducts form =
          \<lparr>cleanFormJsonData = form, upsellProducts_of = [], reportedError = None\<rparr>)
     \<and> ((\<exists>e\<in>set form. is_upsell_key e) \<and> falsy (map_of form ''product-title'') \<longrightarrow>
        detectUpsellProducts form = missing_title form)
     \<and> (\<forall>t. (\<exists>e\<in>set form. is_upsell_key e) \<and> map_of form ''product-title'' = Some t
            \<and> \<not> falsy (Some t) \<longrightarrow>
          upsellProducts_of (detectUpsellProducts form) =
            map (\<lambda>e. \<lparr>up_id = drop (length UPSELL_PRODUCT_PREFIX) (fst e), up_title = snd e,
                        up_quantity = 1, up_properties = [(''Product'', t)]\<rparr>)
              (filter is_upsell_key form)
          \<and> reportedError (detectUpsellProducts form) = None
          \<and> (\<forall>k. startsWith k UPSELL_PRODUCT_PREFIX \<longrightarrow>
                 map_of (cleanFormJsonData (detectUpsellProducts form)) k = None)
          \<and> (\<forall>k. \<not> startsWith k UPSELL_PRODUCT_PREFIX \<and> k \<noteq> ''properties'' \<longrightarrow>
                 map_of (cleanFormJsonData (detectUpsellProducts form)) k = map_of form k)
          \<and> (\<exists>ps. map_of (cleanFormJsonData (detectUpsellProducts form)) ''properties''
                      = Some (JObject ps)
                 \<and> (\<forall>e\<in>set form. is_upsell_key e \<longrightarrow> map_of ps (fst e) = Some (snd e))
                 \<and> (\<forall>k. \<not> startsWith k UPSELL_PRODUCT_PREFIX \<longrightarrow>
                        map_of ps k = map_of (spread (map_of form ''properties'')) k)))"
proof (intro conjI allI impI)
  assume "\<forall>e\<in>set form. \<not> is_upsell_key e"
  then show "detectUpsellProducts form =
          \<lparr>cleanFormJsonData = form, upsellProducts_of = [], reportedError = None\<rparr>"
    by (rule detect_none)
next
  assume "(\<exists>e\<in>set form. is_upsell_key e) \<and> falsy (map_of form ''product-title'')"
  then show "detectUpsellProducts form = missing_title form"
    by (simp add: detect_untitled)
next
  fix t
  assume h: "(\<exists>e\<in>set form. is_upsell_key e) \<and> map_of form ''product-title'' = Some t
            \<and> \<not> falsy (Some t)"
  let ?clean = "filter (\<lambda>e. \<not> is_upsell_key e) form"
  let ?ups = "filter is_upsell_key form"
  let ?ps = "foldl assign (spread (map_of ?clean ''properties'')) ?ups"
  have d: "detectUpsellProducts form =
     \<lparr>cleanFormJsonData = assign ?clean (''properties'', JObject ?ps),
      upsellProducts_of = map (upsell_item t) ?ups, reportedError = None\<rparr>"
    using h by (simp add: detect_titled)
  have clean: "map_of ?clean k = (if startsWith k UPSELL_PRODUCT_PREFIX then None else map_of form k)" for k
    using map_of_filter_key [of "\<lambda>k. \<not> startsWith k UPSELL_PRODUCT_PREFIX" form k]
    by (simp add: is_upsell_key_def [abs_def])
  have ups: "map_of ?ups k = (if startsWith k UPSELL_PRODUCT_PREFIX then map_of form k else None)" for k
    using map_of_filter_key [of "\<lambda>k. startsWith k UPSELL_PRODUCT_PREFIX" form k]
    by (simp add: is_upsell_key_def [abs_def])
  have dr: "distinct (map fst (rev ?ups))"
    using assms by (simp add: rev_map [symmetric] distinct_map_filter)
  have ps: "map_of ?ps = map_of (spread (map_of ?clean ''properties'')) ++ map_of (rev ?ups)"
    by (rule map_of_foldl_assign)
  show "upsellProducts_of (detectUpsellProducts form) =
            map (\<lambda>e. \<lparr>up_id = drop (length UPSELL_PRODUCT_PREFIX) (fst e), up_title = snd e,
                        up_quantity = 1, up_properties = [(''Product'', t)]\<rparr>) ?ups"
    unfolding d by (simp add: upsell_item_eq)
  show "reportedError (detectUpsellProducts form) = None"
    unfolding d by simp
  show "map_of (cleanFormJsonData (detectUpsellProducts form)) k = None"
    if "startsWith k UPSELL_PRODUCT_PREFIX" for k
  proof -
    from that have "k \<noteq> ''properties''" using properties_not_upsell by auto
    with that show ?thesis unfolding d by (simp add: map_of_assign clean)
  qed
  show "map_of (cleanFormJsonData (detectUpsellProducts form)) k = map_of form k"
    if "\<not> startsWith k UPSELL_PRODUCT_PREFIX \<and> k \<noteq> ''properties''" for k
    using that unfolding d by (simp add: map_of_assign clean)
  show "\<exists>ps. map_of (cleanFormJsonData (detectUpsellProducts form)) ''properties'' = Some (JObject ps)
          \<and> (\<forall>e\<in>set form. is_upsell_key e \<longrightarrow> map_of ps (fst e) = Some (snd e))
          \<and> (\<forall>k. \<not> startsWith k UPSELL_PRODUCT_PREFIX \<longrightarrow>
                 map_of ps k = map_of (spread (map_of form ''properties'')) k)"
  proof (intro exI [of _ ?ps] conjI ballI allI impI)
    show "map_of (cleanFormJsonData (detectUpsellProducts form)) ''properties'' = Some (JObject ?ps)"
      unfolding d by (simp add: map_of_assign)
  next
    fix e assume e: "e \<in> set form" "is_upsell_key e"
    then have "(fst e, snd e) \<in> set (rev ?ups)" by simp
    with dr have "map_of (rev ?ups) (fst e) = Some (snd e)" by (rule map_of_is_SomeI)
    then show "map_of ?ps (fst e) = Some (snd e)"
      by (simp add: ps)
  next
    fix k assume k: "\<not> startsWith k UPSELL_PRODUCT_PREFIX"
    then have "k \<notin> fst ` set (rev ?ups)" by (auto simp: is_upsell_key_def)
    then have none: "map_of (rev ?ups) k = None" by (metis map_of_eq_None_iff)
    have pr: "map_of ?clean ''properties'' = map_of form ''properties''"
      using properties_not_upsell by (simp add: clean)
    have "map_of ?ps k = (map_of (spread (map_of ?clean ''properties'')) ++ map_of (rev ?ups)) k"
      by (simp only: ps)
    also have "\<dots> = map_of (spread (map_of ?clean ''properties'')) k"
      using none by (simp add: map_add_def)
    finally show "map_of ?ps k = map_of (spread (map_of form ''properties'')) k"
      by (simp only: pr)
  qed
qed


lemmas detect_defs = detectUpsellProducts_def missing_title_def is_upsell_key_def startsWith_def
  UPSELL_PRODUCT_PREFIX_def upsell_item_def Let_def

text \<open>The example form: two upsell line items, and the fields gone from the top level.\<close>

theorem detectUpsellProducts_spec_witness:
  "distinct (map fst ex_form)
   \<and> upsellProducts_of (detectUpsellProducts ex_form) =
       [\<lparr>up_id = ''42'', up_title = JString ''Brush - RED / small'', up_quantity = 1,
          up_properties = [(''Product'', JString ''Canvas'')]\<rparr>,
        \<lparr>up_id = ''44'', up_title = JString ''Wrap - Blue / Large'', up_quantity = 1,
          up_properties = [(''Product'', JString ''Canvas'')]\<rparr>]
   \<and> map_of (cleanFormJsonData (detectUpsellProducts ex_form)) ''_upsell_variant_42'' = None
   \<and> map_of (cleanFormJsonData (detectUpsellProducts ex_form)) ''_upsell_variant_44'' = None
   \<and> map_of (cleanFormJsonData (detectUpsellProducts ex_form)) ''id'' = Some (JString ''1001'')
   \<and> detectUpsellProducts (take 4 ex_form) =
       \<lparr>cleanFormJsonData = take 4 ex_form, upsellProducts_of = [], reportedError = None\<rparr>
   \<and> detectUpsellProducts ex_form_untitled = missing_title ex_form_untitled"
proof -
  have d: "distinct (map fst ex_form)" "distinct (map fst (take 4 ex_form))"
    "distinct (map fst ex_form_untitled)"
    by (simp_all add: ex_form_def ex_form_untitled_def)
  have t: "map_of ex_form ''product-title'' = Some (JString ''Canvas'')"
    "\<not> falsy (Some (JString ''Canvas''))"
    by (simp_all add: ex_form_def)
  have u: "\<exists>e\<in>set ex_form. is_upsell_key e" "\<exists>e\<in>set ex_form_untitled. is_upsell_key e"
    "\<forall>e\<in>set (take 4 ex_form). \<not> is_upsell_key e"
    "falsy (map_of ex_form_untitled ''product-title'')"
    by (simp_all add: ex_form_def ex_form_untitled_def is_upsell_key_def startsWith_def
        UPSELL_PRODUCT_PREFIX_def)
  have k: "startsWith ''_upsell_variant_42'' UPSELL_PRODUCT_PREFIX"
    "startsWith ''_upsell_variant_44'' UPSELL_PRODUCT_PREFIX"
    "\<not> startsWith ''id'' UPSELL_PRODUCT_PREFIX \<and> ''id'' \<noteq> ''properties''"
    by (simp_all add: startsWith_def UPSELL_PRODUCT_PREFIX_def)
  have f: "filter is_upsell_key ex_form =
      [(''_upsell_variant_42'', JString ''Brush - RED / small''),
       (''_upsell_variant_44'', JString ''Wrap - Blue / Large'')]"
    by (simp add: ex_form_def is_upsell_key_def startsWith_def UPSELL_PRODUCT_PREFIX_def)
  from detectUpsellProducts_spec [OF d(1)] u(1) t k
  have "upsellProducts_of (detectUpsellProducts ex_form) =
            map (\<lambda>e. \<lparr>up_id = drop (length UPSELL_PRODUCT_PREFIX) (fst e), up_title = snd e,
                        up_quantity = 1, up_properties = [(''Product'', JString ''Canvas'')]\<rparr>)
              (filter is_upsell_key ex_form)"
    and "map_of (cleanFormJsonData (detectUpsellProducts ex_form)) ''_upsell_variant_42'' = None"
    and "map_of (cleanFormJsonData (detectUpsellProducts ex_form)) ''_upsell_variant_44'' = None"
    and "map_of (cleanFormJsonData (detectUpsellProducts ex_form)) ''id'' = map_of ex_form ''id''"
    by blast+
  moreover have "detectUpsellProducts (take 4 ex_form) =
       \<lparr>cleanFormJsonData = take 4 ex_form, upsellProducts_of = [], reportedError = None\<rparr>"
    using detectUpsellProducts_spec [OF d(2)] u(3) by blast
  moreover have "detectUpsellProducts ex_form_untitled = missing_title ex_form_untitled"
    using detectUpsellProducts_spec [OF d(3)] u(2) u(4) by blast
  ultimately show ?thesis
    using d(1) unfolding f by (simp add: UPSELL_PRODUCT_PREFIX_def) (simp add: ex_form_def)
qed

text \<open>
  A form with a prefixed field and no product title: no line item is extracted and the
  prefixed field stays in the primary line item. And in the example form, whose fields
  are extracted, the prefixed fields are still part of the primary line item, inside
  its \<open>properties\<close>.
\<close>

theorem detectUpsellProducts_counterexample:
  "is_upsell_key (''_upsell_variant_42'', JString ''Brush - RED / small'')
   \<and> (''_upsell_variant_42'', JString ''Brush - RED / small'') \<in> set ex_form_untitled
   \<and> upsellProducts_of (detectUpsellProducts ex_form_untitled) = []
   \<and> cleanFormJsonData (detectUpsellProducts ex_form_untitled) = ex_form_untitled
   \<and> map_of (cleanFormJsonData (detectUpsellProducts ex_form_untitled)) ''_upsell_variant_42''
        = Some (JString ''Brush - RED / small'')
   \<and> map_of (cleanFormJsonData (detectUpsellProducts ex_form)) ''properties'' =
        Some (JObject [(''_feature'', JString ''editor''),
                       (''_upsell_variant_42'', JString ''Brush - RED / small''),
                       (''_upsell_variant_44'', JString ''Wrap - Blue / Large'')])"
  by (simp add: detect_defs ex_form_def ex_form_untitled_def)

section \<open>Properties of hiding and showing\<close>

lemma hide_guard:
  "hideUpsellProduct u None st = st"
  "hideUpsellProduct None r st = st"
  "hideUpsellProduct (Some []) r st = st"
  by (simp_all add: hideUpsellProduct_def split: option.splits)

lemma hide_item:
  assumes "uid \<noteq> []"
  shows "items (hideUpsellProduct (Some uid) (Some i) st) =
     (items st)(i := (items st i)\<lparr>styleDisplay := Some ''none'',
        checkbox := (if checkbox (items st i) = Some True then Some False else checkbox (items st i))\<rparr>)"
  using assms by (auto simp: hideUpsellProduct_def Let_def fun_eq_iff)

lemma hide_dispatched:
  assumes "uid \<noteq> []"
  shows "dispatched (hideUpsellProduct (Some uid) (Some i) st) =
     (if checkbox (items st i) = Some True then dispatched st @ [(i, ''change'')] else dispatched st)"
  using assms by (simp add: hideUpsellProduct_def Let_def)

lemma hide_hidden:
  assumes "uid \<noteq> []"
  shows "hiddenUpsellProducts (hideUpsellProduct (Some uid) (Some i) st) = insert uid (hiddenUpsellProducts st)"
  using assms by (simp add: hideUpsellProduct_def Let_def)

lemma hide_original:
  assumes "uid \<noteq> []"
  shows "originalDisplayValue (hideUpsellProduct (Some uid) (Some i) st) =
     (if computedDisplay (items st i) \<noteq> ''none'' then Some (computedDisplay (items st i))
      else originalDisplayValue st)"
  using assms by (simp add: hideUpsellProduct_def Let_def)

lemma show_item:
  "items (showUpsellProduct u (Some i) st) =
     (items st)(i := (items st i)\<lparr>styleDisplay :=
        Some (case originalDisplayValue st of None \<Rightarrow> ''block''
              | Some d \<Rightarrow> if d \<noteq> [] then d else ''block'')\<rparr>)"
  by (simp add: showUpsellProduct_def Let_def)

lemma show_original: "originalDisplayValue (showUpsellProduct u r st) = originalDisplayValue st"
  by (simp add: showUpsellProduct_def Let_def split: option.splits)

lemma show_dispatched: "dispatched (showUpsellProduct u r st) = dispatched st"
  by (simp add: showUpsellProduct_def Let_def split: option.splits)


lemma hidden_unchecked_hide:
  assumes "hidden_unchecked st"
  shows "hidden_unchecked (hideUpsellProduct u r st)"
proof (cases "\<exists>uid i. u = Some uid \<and> uid \<noteq> [] \<and> r = Some i")
  case True
  then obtain uid i where u: "u = Some uid" "uid \<noteq> []" "r = Some i" by blast
  show ?thesis
    using assms unfolding u hidden_unchecked_def
    by (simp add: hide_item [OF u(2)] hide_original [OF u(2)])
next
  case False
  then have "hideUpsellProduct u r st = st"
    by (cases u; cases r) (auto simp: hide_guard)
  with assms show ?thesis by simp
qed

lemma hidden_unchecked_show:
  assumes "hidden_unchecked st"
  shows "hidden_unchecked (showUpsellProduct u r st)"
proof (cases r)
  case None
  then show ?thesis using assms by (simp add: showUpsellProduct_def)
next
  case (Some i)
  show ?thesis
    using assms unfolding Some hidden_unchecked_def
    by (auto simp: show_item show_original split: option.splits)
qed

lemma hidden_unchecked_hideAll:
  "hidden_unchecked st \<Longrightarrow> hidden_unchecked (hideAllUpsellProducts st)"
proof -
  have "hidden_unchecked s \<Longrightarrow> hidden_unchecked (foldl (\<lambda>s c. hideUpsellProduct (fst c) (snd c) s) s cs)"
    for s cs
    by (induction cs arbitrary: s) (simp_all add: hidden_unchecked_hide)
  then show "hidden_unchecked st \<Longrightarrow> hidden_unchecked (hideAllUpsellProducts st)"
    by (simp add: hideAllUpsellProducts_def)
qed

text \<open>
  C4. Hiding an upsell item (the call has an item and a non-empty upsell id) sets its
  display to \<open>none\<close>, records the id as hidden and leaves the item unchecked: when its
  checkbox was checked, the operation unchecks it and dispatches one \<open>change\<close> event on it;
  otherwise checkbox and events stay as they are; no other item changes. Without an
  item or an id the call does nothing, so it hides nothing. Consequently "no item hidden
  by the component is checked" is an invariant of hiding, showing and hiding all.
\<close>

theorem hideUpsellProduct_unchecks:
  "(uid \<noteq> [] \<longrightarrow>
      computedDisplay (items (hideUpsellProduct (Some uid) (Some i) st) i) = ''none''
      \<and> uid \<in> hiddenUpsellProducts (hideUpsellProduct (Some uid) (Some i) st)
      \<and> checkbox (items (hideUpsellProduct (Some uid) (Some i) st) i) \<noteq> Some True
      \<and> (checkbox (items st i) = Some True \<longrightarrow>
            checkbox (items (hideUpsellProduct (Some uid) (Some i) st) i) = Some False
            \<and> dispatched (hideUpsellProduct (Some uid) (Some i) st) = dispatched st @ [(i, ''change'')])
      \<and> (checkbox (items st i) \<noteq> Some True \<longrightarrow>
            checkbox (items (hideUpsellProduct (Some uid) (Some i) st) i) = checkbox (items st i)
            \<and> dispatched (hideUpsellProduct (Some uid) (Some i) st) = dispatched st)
      \<and> (\<forall>j. j \<noteq> i \<longrightarrow> items (hideUpsellProduct (Some uid) (Some i) st) j = items st j))
   \<and> ((u = None \<or> u = Some [] \<or> r = None) \<longrightarrow> hideUpsellProduct u r st = st)
   \<and> (hidden_unchecked st \<longrightarrow>
         hidden_unchecked (hideUpsellProduct u r st)
         \<and> hidden_unchecked (showUpsellProduct u r st)
         \<and> hidden_unchecked (hideAllUpsellProducts st))"
proof (intro conjI impI allI)
  assume uid: "uid \<noteq> []"
  note h = hide_item [OF uid, of i st] hide_dispatched [OF uid, of i st] hide_hidden [OF uid, of i st]
  show "computedDisplay (items (hideUpsellProduct (Some uid) (Some i) st) i) = ''none''"
    by (simp add: h computedDisplay_def)
  show "uid \<in> hiddenUpsellProducts (hideUpsellProduct (Some uid) (Some i) st)"
    by (simp add: h)
  show "checkbox (items (hideUpsellProduct (Some uid) (Some i) st) i) \<noteq> Some True"
    by (simp add: h)
  show "checkbox (items (hideUpsellProduct (Some uid) (Some i) st) i) = Some False"
    if "checkbox (items st i) = Some True"
    using that by (simp add: h)
  show "dispatched (hideUpsellProduct (Some uid) (Some i) st) = dispatched st @ [(i, ''change'')]"
    if "checkbox (items st i) = Some True"
    using that by (simp add: h)
  show "checkbox (items (hideUpsellProduct (Some uid) (Some i) st) i) = checkbox (items st i)"
    if "checkbox (items st i) \<noteq> Some True"
    using that by (simp add: h)
  show "dispatched (hideUpsellProduct (Some uid) (Some i) st) = dispatched st"
    if "checkbox (items st i) \<noteq> Some True"
    using that by (simp add: h)
  show "items (hideUpsellProduct (Some uid) (Some i) st) j = items st j" if "j \<noteq> i" for j
    using that by (simp add: h)
next
  assume "u = None \<or> u = Some [] \<or> r = None"
  then show "hideUpsellProduct u r st = st" by (auto simp: hide_guard)
next
  assume "hidden_unchecked st"
  then show "hidden_unchecked (hideUpsellProduct u r st)"
    "hidden_unchecked (showUpsellProduct u r st)"
    "hidden_unchecked (hideAllUpsellProducts st)"
    by (rule hidden_unchecked_hide hidden_unchecked_show hidden_unchecked_hideAll)+
qed


text \<open>Hiding the checked item 0 of the example page.\<close>

theorem hideUpsellProduct_unchecks_witness:
  "''brush'' \<noteq> [] \<and> checkbox (items ex_page 0) = Some True
   \<and> computedDisplay (items (hideUpsellProduct (Some ''brush'') (Some 0) ex_page) 0) = ''none''
   \<and> checkbox (items (hideUpsellProduct (Some ''brush'') (Some 0) ex_page) 0) = Some False
   \<and> dispatched (hideUpsellProduct (Some ''brush'') (Some 0) ex_page) = [(0, ''change'')]
   \<and> hideUpsellProduct None (Some 0) ex_page = ex_page
   \<and> hidden_unchecked ex_page
   \<and> hidden_unchecked (hideAllUpsellProducts ex_page)"
proof -
  have b: "''brush'' \<noteq> []" by simp
  have c: "checkbox (items ex_page 0) = Some True" and d: "dispatched ex_page = []"
    by (simp_all add: ex_page_def)
  have i: "hidden_unchecked ex_page"
    by (simp add: hidden_unchecked_def ex_page_def)
  show ?thesis
    using hideUpsellProduct_unchecks [of "''brush''" 0 ex_page None "Some 0"] b c d i
    by simp
qed

lemma show_display:
  "computedDisplay (items (showUpsellProduct u (Some i) st) i) =
     (case originalDisplayValue st of None \<Rightarrow> ''block''
      | Some d \<Rightarrow> if d \<noteq> [] then d else ''block'')"
  by (simp add: show_item computedDisplay_def)

lemma hide_other_display:
  "uid \<noteq> [] \<Longrightarrow> j \<noteq> i \<Longrightarrow>
   computedDisplay (items (hideUpsellProduct (Some uid) (Some i) st) j) = computedDisplay (items st j)"
  by (simp add: hide_item)

lemma hide_same_display:
  "uid \<noteq> [] \<Longrightarrow> computedDisplay (items (hideUpsellProduct (Some uid) (Some i) st) i) = ''none''"
  by (simp add: hide_item computedDisplay_def)

text \<open>
  C5, as the code has it. The component stores one display value, not one per item:
  hiding an item whose display is not \<open>none\<close> overwrites it with that display, and showing
  an item sets the item's display to the stored value, or to \<open>block\<close> when none is stored.
  So an item hidden and then shown gets its own display back (flex stays flex), also
  when another item is hidden in between that is already hidden or has the same
  display; but when an item with a different display is hidden in between, the item
  shown gets that other item's display.
\<close>

theorem showUpsellProduct_restores:
  "computedDisplay (items (showUpsellProduct u (Some i) st) i) =
     (case originalDisplayValue st of None \<Rightarrow> ''block''
      | Some d \<Rightarrow> if d \<noteq> [] then d else ''block'')
   \<and> (uid \<noteq> [] \<longrightarrow>
        originalDisplayValue (hideUpsellProduct (Some uid) (Some i) st) =
          (if computedDisplay (items st i) \<noteq> ''none'' then Some (computedDisplay (items st i))
           else originalDisplayValue st))
   \<and> (uid \<noteq> [] \<and> computedDisplay (items st i) \<noteq> ''none'' \<and> computedDisplay (items st i) \<noteq> [] \<longrightarrow>
        computedDisplay (items (showUpsellProduct u (Some i)
            (hideUpsellProduct (Some uid) (Some i) st)) i) = computedDisplay (items st i))
   \<and> (uid \<noteq> [] \<and> uid' \<noteq> [] \<and> j \<noteq> i
        \<and> computedDisplay (items st i) \<noteq> ''none'' \<and> computedDisplay (items st i) \<noteq> []
        \<and> (computedDisplay (items st j) = ''none''
            \<or> computedDisplay (items st j) = computedDisplay (items st i)) \<longrightarrow>
        computedDisplay (items (showUpsellProduct u (Some i)
            (hideUpsellProduct (Some uid') (Some j)
              (hideUpsellProduct (Some uid) (Some i) st))) i) = computedDisplay (items st i))
   \<and> (uid \<noteq> [] \<and> uid' \<noteq> [] \<and> j \<noteq> i
        \<and> computedDisplay (items st j) \<noteq> ''none'' \<and> computedDisplay (items st j) \<noteq> [] \<longrightarrow>
        computedDisplay (items (showUpsellProduct u (Some i)
            (hideUpsellProduct (Some uid') (Some j)
              (hideUpsellProduct (Some uid) (Some i) st))) i) = computedDisplay (items st j))"
proof (intro conjI impI)
  show "computedDisplay (items (showUpsellProduct u (Some i) st) i) =
     (case originalDisplayValue st of None \<Rightarrow> ''block''
      | Some d \<Rightarrow> if d \<noteq> [] then d else ''block'')"
    by (rule show_display)
next
  assume "uid \<noteq> []"
  then show "originalDisplayValue (hideUpsellProduct (Some uid) (Some i) st) =
          (if computedDisplay (items st i) \<noteq> ''none'' then Some (computedDisplay (items st i))
           else originalDisplayValue st)"
    by (rule hide_original)
next
  assume "uid \<noteq> [] \<and> computedDisplay (items st i) \<noteq> ''none'' \<and> computedDisplay (items st i) \<noteq> []"
  then show "computedDisplay (items (showUpsellProduct u (Some i)
            (hideUpsellProduct (Some uid) (Some i) st)) i) = computedDisplay (items st i)"
    by (simp add: show_display hide_original)
next
  assume a: "uid \<noteq> [] \<and> uid' \<noteq> [] \<and> j \<noteq> i
        \<and> computedDisplay (items st i) \<noteq> ''none'' \<and> computedDisplay (items st i) \<noteq> []
        \<and> (computedDisplay (items st j) = ''none''
            \<or> computedDisplay (items st j) = computedDisplay (items st i))"
  let ?s1 = "hideUpsellProduct (Some uid) (Some i) st"
  have o1: "originalDisplayValue ?s1 = Some (computedDisplay (items st i))"
    using a by (simp add: hide_original)
  have dj: "computedDisplay (items ?s1 j) = computedDisplay (items st j)"
    using a by (simp add: hide_other_display)
  have "originalDisplayValue (hideUpsellProduct (Some uid') (Some j) ?s1)
          = Some (computedDisplay (items st i))"
    using a by (auto simp: hide_original [of uid' j ?s1] o1 dj)
  then show "computedDisplay (items (showUpsellProduct u (Some i)
            (hideUpsellProduct (Some uid') (Some j) ?s1)) i) = computedDisplay (items st i)"
    using a by (simp add: show_display)
next
  assume a: "uid \<noteq> [] \<and> uid' \<noteq> [] \<and> j \<noteq> i
        \<and> computedDisplay (items st j) \<noteq> ''none'' \<and> computedDisplay (items st j) \<noteq> []"
  let ?s1 = "hideUpsellProduct (Some uid) (Some i) st"
  have dj: "computedDisplay (items ?s1 j) = computedDisplay (items st j)"
    using a by (simp add: hide_other_display)
  have "originalDisplayValue (hideUpsellProduct (Some uid') (Some j) ?s1)
          = Some (computedDisplay (items st j))"
    using a by (simp add: hide_original [of uid' j ?s1] dj)
  then show "computedDisplay (items (showUpsellProduct u (Some i)
            (hideUpsellProduct (Some uid') (Some j) ?s1)) i) = computedDisplay (items st j)"
    using a by (simp add: show_display)
qed

text \<open>Item 0 of the example page, hidden and shown: \<open>flex\<close> again.\<close>

theorem showUpsellProduct_restores_witness:
  "computedDisplay (items ex_page 0) = ''flex''
   \<and> computedDisplay (items (showUpsellProduct (Some ''brush'') (Some 0)
        (hideUpsellProduct (Some ''brush'') (Some 0) ex_page)) 0) = ''flex''
   \<and> computedDisplay (items (showUpsellProduct (Some ''brush'') (Some 0) ex_page) 0) = ''block''
   \<and> originalDisplayValue (hideUpsellProduct (Some ''brush'') (Some 0) ex_page) = Some ''flex''"
proof -
  have b: "''brush'' \<noteq> []" by simp
  have d: "computedDisplay (items ex_page 0) = ''flex''" and o: "originalDisplayValue ex_page = None"
    by (simp_all add: ex_page_def computedDisplay_def)
  show ?thesis
    using showUpsellProduct_restores [of "Some ''brush''" 0 ex_page "''brush''" "''brush''" 0] b d o
    by simp
qed

text \<open>
  Item 0 (\<open>flex\<close>) and item 1 (\<open>grid\<close>) are hidden, in this order, before item 0 is shown:
  item 0 is now laid out as \<open>grid\<close>.
\<close>

theorem showUpsellProduct_shared_counterexample:
  "computedDisplay (items ex_page 0) = ''flex''
   \<and> computedDisplay (items ex_page 1) = ''grid''
   \<and> computedDisplay (items (showUpsellProduct (Some ''brush'') (Some 0)
        (hideUpsellProduct (Some ''wrap'') (Some 1)
          (hideUpsellProduct (Some ''brush'') (Some 0) ex_page))) 0) = ''grid''"
  by (simp add: show_display hide_original hide_other_display) (simp add: ex_page_def computedDisplay_def)

section \<open>Properties of the bridge\<close>

subsection \<open>The two polls\<close>

lemma maxAttempts_pos: "0 < maxAttempts"
  by (simp add: maxAttempts_def)

lemma checkManager_bound:
  "attempts < maxAttempts \<Longrightarrow>
   attempts < checks_made (checkManager ready attempts)
   \<and> checks_made (checkManager ready attempts) \<le> maxAttempts"
proof (induction ready attempts rule: checkManager.induct)
  case (1 ready attempts)
  show ?case
  proof (cases "ready (attempts + 1) \<or> maxAttempts \<le> attempts + 1")
    case True
    then show ?thesis
      using "1.prems" by (subst (1 2) checkManager.simps) auto
  next
    case False
    then have "attempts + 1 < maxAttempts" by simp
    with False "1.IH" have "attempts + 1 < checks_made (checkManager ready (attempts + 1))
      \<and> checks_made (checkManager ready (attempts + 1)) \<le> maxAttempts"
      by simp
    moreover have "checkManager ready attempts = checkManager ready (attempts + 1)"
      using False by (subst checkManager.simps) simp
    ultimately show ?thesis by simp
  qed
qed

lemma checkManager_Resolved:
  "checkManager ready attempts = Resolved n \<Longrightarrow>
   attempts < n \<and> ready n \<and> (\<forall>k. attempts < k \<and> k < n \<longrightarrow> \<not> ready k)"
proof (induction ready attempts rule: checkManager.induct)
  case (1 ready attempts)
  show ?case
  proof (cases "ready (attempts + 1)")
    case True
    then have "checkManager ready attempts = Resolved (attempts + 1)"
      by (subst checkManager.simps) simp
    with "1.prems" True show ?thesis by auto
  next
    case False
    show ?thesis
    proof (cases "maxAttempts \<le> attempts + 1")
      case True
      then have "checkManager ready attempts = Rejected (attempts + 1)"
        using False by (subst checkManager.simps) simp
      with "1.prems" show ?thesis by simp
    next
      case max: False
      then have "checkManager ready attempts = checkManager ready (attempts + 1)"
        using False by (subst checkManager.simps) simp
      with "1.prems" "1.IH" False max
      have "attempts + 1 < n \<and> ready n \<and> (\<forall>k. attempts + 1 < k \<and> k < n \<longrightarrow> \<not> ready k)"
        by simp
      then show ?thesis
        using False by (metis Suc_eq_plus1 Suc_lessI less_SucI less_imp_le_nat not_less_eq_eq order_less_le)
    qed
  qed
qed

lemma checkManager_Rejected:
  "attempts < maxAttempts \<Longrightarrow> checkManager ready attempts = Rejected n \<Longrightarrow>
   n = maxAttempts \<and> (\<forall>k. attempts < k \<and> k \<le> maxAttempts \<longrightarrow> \<not> ready k)"
proof (induction ready attempts rule: checkManager.induct)
  case (1 ready attempts)
  show ?case
  proof (cases "ready (attempts + 1)")
    case True
    then have "checkManager ready attempts = Resolved (attempts + 1)"
      by (subst checkManager.simps) simp
    with "1.prems" show ?thesis by simp
  next
    case False
    show ?thesis
    proof (cases "maxAttempts \<le> attempts + 1")
      case True
      then have "checkManager ready attempts = Rejected (attempts + 1)"
        using False by (subst checkManager.simps) simp
      with "1.prems" have n: "n = attempts + 1" by simp
      with True "1.prems"(1) have "n = maxAttempts" by simp
      moreover have "\<forall>k. attempts < k \<and> k \<le> maxAttempts \<longrightarrow> \<not> ready k"
        using False True "1.prems"(1) by (metis Suc_eq_plus1 Suc_leI le_antisym)
      ultimately show ?thesis by simp
    next
      case max: False
      then have "checkManager ready attempts = checkManager ready (attempts + 1)"
        using False by (subst checkManager.simps) simp
      with "1.prems" "1.IH" False max
      have "n = maxAttempts \<and> (\<forall>k. attempts + 1 < k \<and> k \<le> maxAttempts \<longrightarrow> \<not> ready k)"
        by simp
      then show ?thesis
        using False by (metis Suc_eq_plus1 Suc_lessI)
    qed
  qed
qed

lemma checkManager_never:
  "attempts < maxAttempts \<Longrightarrow> \<forall>k. \<not> ready k \<Longrightarrow> checkManager ready attempts = Rejected maxAttempts"
proof -
  assume a: "attempts < maxAttempts" and n: "\<forall>k. \<not> ready k"
  show ?thesis
  proof (cases "checkManager ready attempts")
    case (Resolved m)
    then have "ready m" using checkManager_Resolved by blast
    with n show ?thesis by simp
  next
    case (Rejected m)
    with a show ?thesis using checkManager_Rejected by blast
  qed
qed

lemma poll_editor_Some:
  assumes "poll_editor window k st = Some st'"
  shows "\<exists>j. window j \<noteq> None"
proof (rule poll_editor.raw_induct [where P = "\<lambda>w k st y. \<exists>j. w j \<noteq> None", OF _ assms])
  fix poll w i s y
  assume IH: "\<And>w i s y. poll w i s = Some y \<Longrightarrow> \<exists>j. w j \<noteq> None"
    and eq: "(if timerArmed (checkAvailability (w i) s)
              then poll w (Suc i) (checkAvailability (w i) s)
              else Some (checkAvailability (w i) s)) = Some y"
  show "\<exists>j. w j \<noteq> None"
  proof (cases "w i")
    case None
    then have "timerArmed (checkAvailability (w i) s)"
      by (simp add: checkAvailability_def)
    with eq have "poll w (Suc i) (checkAvailability (w i) s) = Some y"
      by simp
    then show ?thesis by (rule IH)
  next
    case (Some ed)
    then show ?thesis by auto
  qed
qed

lemma poll_editor_never:
  "\<forall>k. window k = None \<Longrightarrow> poll_editor window k st = None"
  using poll_editor_Some [of window k st] by (cases "poll_editor window k st") auto

lemma polls_absent:
  "\<forall>k. window k = None \<Longrightarrow> polls window (Suc n) st = st\<lparr>timerArmed := True\<rparr>"
  by (induction n) (simp_all add: checkAvailability_def)

subsection \<open>The wrappers\<close>

lemma resolve_with_fields [simp]:
  "isReady (resolve_with pid r st) = isReady st"
  "readyCallbacks (resolve_with pid r st) = readyCallbacks st"
  "promises (resolve_with pid r st) = promises st"
  "timerArmed (resolve_with pid r st) = timerArmed st"
  by (simp_all add: resolve_with_def split: option.splits)

lemma settled_resolve_with:
  "settled (resolve_with pid r st) q =
     (if q = pid \<and> settled st pid = None then r else settled st q)"
  by (cases r) (auto simp: resolve_with_def)

lemma run_callback_cases:
  "run_callback None req = Some (Failure type_error_message (failure_feature req))"
  "invoke ed req = Returns r \<Longrightarrow> run_callback (Some ed) req = Some (Passed r)"
  "invoke ed req = Throws Nullish \<Longrightarrow> run_callback (Some ed) req = None"
  "invoke ed req = Throws (ErrorObject m) \<Longrightarrow> run_callback (Some ed) req =
     Some (Failure (if m \<noteq> [] then m else fallback_message req) (failure_feature req))"
  "invoke ed req = Throws NoMessage \<Longrightarrow> run_callback (Some ed) req =
     Some (Failure (fallback_message req) (failure_feature req))"
  by (simp_all add: run_callback_def type_error_message_def)

lemma run_queue_fields [simp]:
  "isReady (run_queue w st cbs) = isReady st"
  "readyCallbacks (run_queue w st cbs) = readyCallbacks st"
  "promises (run_queue w st cbs) = promises st"
  "timerArmed (run_queue w st cbs) = timerArmed st"
  by (induction cbs arbitrary: st) (simp_all add: run_queue_def)

lemma settled_run_queue_other:
  "q \<notin> snd ` set cbs \<Longrightarrow> settled (run_queue w st cbs) q = settled st q"
  by (induction cbs arbitrary: st) (auto simp: run_queue_def settled_resolve_with)

lemma settled_run_queue:
  assumes "distinct (map snd cbs)" and "(req, q) \<in> set cbs" and "settled st q = None"
  shows "settled (run_queue w st cbs) q = run_callback w req"
  using assms
proof (induction cbs arbitrary: st)
  case Nil
  then show ?case by simp
next
  case (Cons cb cbs)
  let ?s = "resolve_with (snd cb) (run_callback w (fst cb)) st"
  have rq: "run_queue w st (cb # cbs) = run_queue w ?s cbs" by (simp add: run_queue_def)
  show ?case
  proof (cases "cb = (req, q)")
    case True
    then have "q \<notin> snd ` set cbs" using Cons.prems(1) by auto
    then have "settled (run_queue w ?s cbs) q = settled ?s q" by (rule settled_run_queue_other)
    also have "\<dots> = run_callback w req" using True Cons.prems(3) by (simp add: settled_resolve_with)
    finally show ?thesis by (simp only: rq)
  next
    case False
    then have in_rest: "(req, q) \<in> set cbs" using Cons.prems(2) by simp
    then have "snd cb \<noteq> q" using Cons.prems(1) by (auto simp: image_iff)
    then have "settled ?s q = None" using Cons.prems(3) by (simp add: settled_resolve_with)
    moreover have "distinct (map snd cbs)" using Cons.prems(1) by simp
    ultimately have "settled (run_queue w ?s cbs) q = run_callback w req"
      using in_rest by (rule Cons.IH [rotated 2])
    then show ?thesis by (simp only: rq)
  qed
qed

lemma checkAvailability_present:
  "checkAvailability (Some ed) st =
     (run_queue (Some ed) (st\<lparr>isReady := True, timerArmed := False\<rparr>) (readyCallbacks st))
       \<lparr>readyCallbacks := []\<rparr>"
  by (simp add: checkAvailability_def run_queue_def)

lemma checkAvailability_absent: "checkAvailability None st = st\<lparr>timerArmed := True\<rparr>"
  by (simp add: checkAvailability_def)

lemma call_wrapper_ready:
  assumes "isReady st" and "settled st (promises st) = None"
  shows "settled (call_wrapper w req st) (promises st) = run_callback w req"
  using assms by (simp add: call_wrapper_def Let_def settled_resolve_with)

lemma call_wrapper_queued:
  assumes "\<not> isReady st"
  shows "call_wrapper w req st =
           st\<lparr>promises := promises st + 1, readyCallbacks := readyCallbacks st @ [(req, promises st)]\<rparr>"
  using assms by (simp add: call_wrapper_def Let_def)

lemma polls_absent_settled:
  "\<forall>k. window k = None \<Longrightarrow> settled (polls window n st) = settled st
     \<and> readyCallbacks (polls window n st) = readyCallbacks st
     \<and> isReady (polls window n st) = isReady st \<and> promises (polls window n st) = promises st"
  by (induction n) (simp_all add: checkAvailability_absent)

lemma wf_new_manager: "wf_manager new_manager"
  by (simp add: wf_manager_def new_manager_def)

lemma wf_call_wrapper:
  assumes "wf_manager st"
  shows "wf_manager (call_wrapper w req st)"
proof (cases "isReady st")
  case True
  with assms have "readyCallbacks st = []" by (simp add: wf_manager_def)
  with assms True show ?thesis
    by (auto simp: wf_manager_def call_wrapper_def Let_def settled_resolve_with)
next
  case False
  with assms show ?thesis
    by (auto simp: wf_manager_def call_wrapper_queued less_Suc_eq image_iff)
qed

lemma wf_checkAvailability:
  assumes "wf_manager st"
  shows "wf_manager (checkAvailability w st)"
proof (cases w)
  case None
  with assms show ?thesis by (simp add: wf_manager_def checkAvailability_absent)
next
  case (Some ed)
  have "settled (run_queue (Some ed) (st\<lparr>isReady := True, timerArmed := False\<rparr>) (readyCallbacks st)) q = None"
    if "promises st \<le> q" for q
  proof -
    from that assms have "q \<notin> snd ` set (readyCallbacks st)"
      by (auto simp: wf_manager_def)
    then show ?thesis
      using that assms by (simp add: settled_run_queue_other wf_manager_def)
  qed
  then show ?thesis
    unfolding Some checkAvailability_present by (simp add: wf_manager_def)
qed


text \<open>
  C8, as the code has it. The wait of the upsell component, \<open>waitForManager\<close>, is bounded:
  it makes at least one and at most \<open>#maxAttempts\<close> = 50 checks of the manager's ready
  flag; when the flag never comes up it rejects at check 50; it resolves at the first
  check that finds the flag, and rejects only after 50 checks that did not. The
  manager's own poll for the global editor object, \<open>checkAvailability\<close>, has no bound: when
  the object never appears the chain of checks never ends, a timer being armed after
  each of them, and the manager never becomes ready.
\<close>

theorem waitForManager_bounded:
  "maxAttempts = 50
   \<and> 1 \<le> checks_made (waitForManager ready)
   \<and> checks_made (waitForManager ready) \<le> maxAttempts
   \<and> ((\<forall>k. \<not> ready k) \<longrightarrow> waitForManager ready = Rejected maxAttempts)
   \<and> (\<forall>n. waitForManager ready = Resolved n \<longrightarrow>
         ready n \<and> (\<forall>k. 0 < k \<and> k < n \<longrightarrow> \<not> ready k))
   \<and> (\<forall>n. waitForManager ready = Rejected n \<longrightarrow>
         n = maxAttempts \<and> (\<forall>k. 0 < k \<and> k \<le> maxAttempts \<longrightarrow> \<not> ready k))
   \<and> ((\<forall>k. window k = None) \<longrightarrow>
         poll_editor window k0 st = None
         \<and> timerArmed (polls window (Suc n) st)
         \<and> isReady (polls window n st) = isReady st)"
proof -
  note b = checkManager_bound [OF maxAttempts_pos, of ready]
  have 1: "1 \<le> checks_made (waitForManager ready)" using b by (simp add: waitForManager_def)
  have 2: "checks_made (waitForManager ready) \<le> maxAttempts"
    using b by (simp add: waitForManager_def)
  have 3: "waitForManager ready = Rejected maxAttempts" if "\<forall>k. \<not> ready k"
    unfolding waitForManager_def using maxAttempts_pos that by (rule checkManager_never)
  have 4: "ready n \<and> (\<forall>k. 0 < k \<and> k < n \<longrightarrow> \<not> ready k)" if "waitForManager ready = Resolved n" for n
    using checkManager_Resolved [of ready 0 n] that by (simp add: waitForManager_def)
  have 5: "n = maxAttempts \<and> (\<forall>k. 0 < k \<and> k \<le> maxAttempts \<longrightarrow> \<not> ready k)"
    if "waitForManager ready = Rejected n" for n
    using checkManager_Rejected [OF maxAttempts_pos, of ready n] that by (simp add: waitForManager_def)
  have 6: "poll_editor window k0 st = None \<and> timerArmed (polls window (Suc n) st)
         \<and> isReady (polls window n st) = isReady st" if w: "\<forall>k. window k = None"
    using poll_editor_never [OF w] polls_absent [OF w, of n st] polls_absent_settled [OF w, of n st]
    by simp
  have c0: "maxAttempts = 50" by (rule maxAttempts_def)
  have c3: "(\<forall>k. \<not> ready k) \<longrightarrow> waitForManager ready = Rejected maxAttempts"
    using 3 by blast
  have c4: "\<forall>n. waitForManager ready = Resolved n \<longrightarrow>
         ready n \<and> (\<forall>k. 0 < k \<and> k < n \<longrightarrow> \<not> ready k)"
    using 4 by blast
  have c5: "\<forall>n. waitForManager ready = Rejected n \<longrightarrow>
         n = maxAttempts \<and> (\<forall>k. 0 < k \<and> k \<le> maxAttempts \<longrightarrow> \<not> ready k)"
    using 5 by blast
  have c6: "(\<forall>k. window k = None) \<longrightarrow>
         poll_editor window k0 st = None
         \<and> timerArmed (polls window (Suc n) st)
         \<and> isReady (polls window n st) = isReady st"
    using 6 by blast
  show ?thesis
    by (intro conjI) (fact c0 1 2 c3 c4 c5 c6)+
qed

text \<open>A flag that never comes up: rejected at check 50. A flag up at check 3: resolved there.\<close>

theorem waitForManager_bounded_witness:
  "waitForManager never_ready = Rejected 50
   \<and> checks_made (waitForManager never_ready) = 50
   \<and> waitForManager ready_at_3 = Resolved 3"
proof -
  have n: "\<forall>k. \<not> never_ready k" by (simp add: never_ready_def)
  note t = waitForManager_bounded [of never_ready never_there 0 new_manager 0]
  have "(\<forall>k. \<not> never_ready k) \<longrightarrow> waitForManager never_ready = Rejected maxAttempts"
    using t by (elim conjE)
  then have "waitForManager never_ready = Rejected maxAttempts" using n by (rule mp)
  then have r: "waitForManager never_ready = Rejected 50" by (simp only: maxAttempts_def)
  have "waitForManager ready_at_3 = Resolved 3"
    by (simp add: waitForManager_def checkManager.simps ready_at_3_def maxAttempts_def)
  with r show ?thesis by simp
qed

text \<open>
  The editor never appears: the chain of \<open>checkAvailability\<close> never ends, and after 51
  checks, one more than the maximum of the wait, the next one is armed.
\<close>

theorem checkAvailability_unbounded_counterexample:
  "poll_editor never_there 0 new_manager = None
   \<and> timerArmed (polls never_there 51 new_manager)
   \<and> \<not> isReady (polls never_there 51 new_manager)"
proof -
  have w: "\<forall>k. never_there k = None" by (simp add: never_there_def)
  have "polls never_there (Suc 50) new_manager = new_manager\<lparr>timerArmed := True\<rparr>"
    using w by (rule polls_absent)
  then have "polls never_there 51 new_manager = new_manager\<lparr>timerArmed := True\<rparr>"
    by simp
  then show ?thesis
    using poll_editor_never [OF w, of 0 new_manager] by (simp add: new_manager_def)
qed


lemma queued_then_found:
  assumes wf: "wf_manager st" and nr: "\<not> isReady st" and w: "\<forall>k. window k = None"
  shows "settled (checkAvailability (Some ed) (polls window n (call_wrapper w0 req st))) (promises st)
           = run_callback (Some ed) req"
proof -
  let ?s1 = "call_wrapper w0 req st"
  let ?s2 = "polls window n ?s1"
  let ?q = "readyCallbacks st @ [(req, promises st)]"
  have s1: "?s1 = st\<lparr>promises := promises st + 1, readyCallbacks := ?q\<rparr>"
    using nr by (rule call_wrapper_queued)
  have q: "readyCallbacks ?s2 = ?q" and se: "settled ?s2 = settled st"
    using polls_absent_settled [OF w, of n ?s1] by (simp_all add: s1)
  have fresh: "settled st (promises st) = None" using wf by (simp add: wf_manager_def)
  have "promises st \<notin> snd ` set (readyCallbacks st)" using wf by (auto simp: wf_manager_def)
  then have d: "distinct (map snd ?q)" using wf by (simp add: wf_manager_def)
  have "settled (run_queue (Some ed) (?s2\<lparr>isReady := True, timerArmed := False\<rparr>) ?q) (promises st)
          = run_callback (Some ed) req"
    using d by (rule settled_run_queue) (simp_all add: se fresh)
  then show ?thesis by (simp add: checkAvailability_present q)
qed

text \<open>
  C7, as the code has it. In a state the manager can be in, a wrapper call on a ready
  manager resolves to what its callback produces: the editor's result when the method
  returns, and the failure object \<open>{success: false, error}\<close> (with \<open>feature: ''\<close> for
  \<open>uploadImage\<close>) when the method throws a value other than \<open>null\<close>/\<open>undefined\<close> or when the
  editor object is gone, the error being the thrown value's message or else the
  wrapper's fallback text. While the manager is not ready the call is queued instead:
  its promise stays unresolved for as long as the editor is absent, and resolves as
  above at the check that finds the editor. When the method throws \<open>null\<close>/\<open>undefined\<close> the
  callback resolves nothing.
\<close>

theorem wrapper_outcome:
  assumes "wf_manager st"
  shows
    "(isReady st \<longrightarrow> settled (call_wrapper w req st) (promises st) = run_callback w req)
     \<and> (\<not> isReady st \<and> (\<forall>k. window k = None) \<longrightarrow>
          settled (polls window n (call_wrapper w req st)) (promises st) = None
          \<and> settled (checkAvailability (Some ed) (polls window n (call_wrapper w req st))) (promises st)
              = run_callback (Some ed) req)
     \<and> run_callback None req = Some (Failure type_error_message (failure_feature req))
     \<and> (\<forall>r. invoke ed req = Returns r \<longrightarrow> run_callback (Some ed) req = Some (Passed r))
     \<and> (\<forall>m. invoke ed req = Throws (ErrorObject m) \<longrightarrow>
           run_callback (Some ed) req =
             Some (Failure (if m \<noteq> [] then m else fallback_message req) (failure_feature req)))
     \<and> (invoke ed req = Throws NoMessage \<longrightarrow>
           run_callback (Some ed) req = Some (Failure (fallback_message req) (failure_feature req)))
     \<and> (invoke ed req = Throws Nullish \<longrightarrow> run_callback (Some ed) req = None)
     \<and> wf_manager (call_wrapper w req st) \<and> wf_manager (checkAvailability w st)"
proof -
  have fresh: "settled st (promises st) = None" using assms by (simp add: wf_manager_def)
  have 1: "settled (call_wrapper w req st) (promises st) = run_callback w req" if "isReady st"
    using that fresh by (rule call_wrapper_ready)
  have 2: "settled (polls window n (call_wrapper w req st)) (promises st) = None"
    if "\<not> isReady st" and "\<forall>k. window k = None"
    using polls_absent_settled [OF that(2), of n "call_wrapper w req st"] fresh
    by (simp add: call_wrapper_queued [OF that(1)])
  have 3: "settled (checkAvailability (Some ed) (polls window n (call_wrapper w req st))) (promises st)
              = run_callback (Some ed) req"
    if "\<not> isReady st" and "\<forall>k. window k = None"
    using assms that by (rule queued_then_found)
  have c1: "isReady st \<longrightarrow> settled (call_wrapper w req st) (promises st) = run_callback w req"
    using 1 by blast
  have c2: "\<not> isReady st \<and> (\<forall>k. window k = None) \<longrightarrow>
          settled (polls window n (call_wrapper w req st)) (promises st) = None
          \<and> settled (checkAvailability (Some ed) (polls window n (call_wrapper w req st))) (promises st)
              = run_callback (Some ed) req"
    using 2 3 by blast
  have c3: "run_callback None req = Some (Failure type_error_message (failure_feature req))"
    by (rule run_callback_cases(1))
  have c4: "\<forall>r. invoke ed req = Returns r \<longrightarrow> run_callback (Some ed) req = Some (Passed r)"
    using run_callback_cases(2) [of ed req] by blast
  have c5: "\<forall>m. invoke ed req = Throws (ErrorObject m) \<longrightarrow>
           run_callback (Some ed) req =
             Some (Failure (if m \<noteq> [] then m else fallback_message req) (failure_feature req))"
    using run_callback_cases(4) [of ed req] by blast
  have c6: "invoke ed req = Throws NoMessage \<longrightarrow>
           run_callback (Some ed) req = Some (Failure (fallback_message req) (failure_feature req))"
    using run_callback_cases(5) [of ed req] by blast
  have c7: "invoke ed req = Throws Nullish \<longrightarrow> run_callback (Some ed) req = None"
    using run_callback_cases(3) [of ed req] by blast
  have c8: "wf_manager (call_wrapper w req st)" using assms by (rule wf_call_wrapper)
  have c9: "wf_manager (checkAvailability w st)" using assms by (rule wf_checkAvailability)
  show ?thesis
    by (intro conjI) (fact c1 c2 c3 c4 c5 c6 c7 c8 c9)+
qed

lemma ready_manager:
  "checkAvailability (Some ed) new_manager =
     new_manager\<lparr>isReady := True\<rparr>"
  by (simp add: checkAvailability_def new_manager_def)

text \<open>
  An editor whose methods throw: the calls on the ready manager resolve to failure
  objects; a call made before the editor is there resolves to one when it appears.
\<close>

theorem wrapper_outcome_witness:
  "settled (call_wrapper (Some ex_failing_editor) UploadImage
              (checkAvailability (Some ex_failing_editor) new_manager)) 0
     = Some (Failure ''no image'' (Some []))
   \<and> settled (call_wrapper (Some ex_failing_editor) (AfterAddToCart ())
              (checkAvailability (Some ex_failing_editor) new_manager)) 0
     = Some (Failure ''Failed to call afterAddToCart'' None)
   \<and> settled (call_wrapper None IsReadyToExport
              (checkAvailability (Some ex_failing_editor) new_manager)) 0
     = Some (Failure type_error_message None)
   \<and> settled (polls never_there 3 (call_wrapper None (OnAddToCart ()) new_manager)) 0 = None
   \<and> settled (checkAvailability (Some ex_failing_editor)
        (polls never_there 3 (call_wrapper None (OnAddToCart ()) new_manager))) 0
     = Some (Failure ''not initialised'' None)"
proof -
  let ?rm = "checkAvailability (Some ex_failing_editor) (new_manager :: (unit, unit) manager)"
  have wf0: "wf_manager (new_manager :: (unit, unit) manager)" by (rule wf_new_manager)
  have wf1: "wf_manager ?rm" using wf0 by (rule wf_checkAvailability)
  have r: "isReady ?rm" "promises ?rm = 0"
    unfolding ready_manager by (simp_all add: new_manager_def)
  have n: "\<not> isReady (new_manager :: (unit, unit) manager)"
    "promises (new_manager :: (unit, unit) manager) = 0"
    by (simp_all add: new_manager_def)
  have w: "\<forall>k. never_there k = None" by (simp add: never_there_def)
  have rc: "run_callback (Some ex_failing_editor) UploadImage = Some (Failure ''no image'' (Some []))"
    "run_callback (Some ex_failing_editor) (AfterAddToCart ())
       = Some (Failure ''Failed to call afterAddToCart'' None)"
    "run_callback (Some ex_failing_editor) (OnAddToCart ())
       = Some (Failure ''not initialised'' None)"
    "run_callback (None :: (unit, unit) editor option) IsReadyToExport
       = Some (Failure type_error_message None)"
    by (simp_all add: run_callback_def ex_failing_editor_def type_error_message_def)
  have "settled (call_wrapper (Some ex_failing_editor) UploadImage ?rm) (promises ?rm)
          = run_callback (Some ex_failing_editor) UploadImage"
    using wrapper_outcome [OF wf1, of "Some ex_failing_editor" UploadImage never_there 0
        ex_failing_editor, THEN conjunct1] r(1) by (rule mp)
  then have a: "settled (call_wrapper (Some ex_failing_editor) UploadImage ?rm) 0
            = Some (Failure ''no image'' (Some []))"
    by (simp only: r(2) rc)
  have "settled (call_wrapper (Some ex_failing_editor) (AfterAddToCart ()) ?rm) (promises ?rm)
          = run_callback (Some ex_failing_editor) (AfterAddToCart ())"
    using wrapper_outcome [OF wf1, of "Some ex_failing_editor" "AfterAddToCart ()" never_there 0
        ex_failing_editor, THEN conjunct1] r(1) by (rule mp)
  then have b: "settled (call_wrapper (Some ex_failing_editor) (AfterAddToCart ()) ?rm) 0
            = Some (Failure ''Failed to call afterAddToCart'' None)"
    by (simp only: r(2) rc)
  have "settled (call_wrapper None IsReadyToExport ?rm) (promises ?rm)
          = run_callback (None :: (unit, unit) editor option) IsReadyToExport"
    using wrapper_outcome [OF wf1, of None IsReadyToExport never_there 0 ex_failing_editor,
        THEN conjunct1] r(1) by (rule mp)
  then have c: "settled (call_wrapper None IsReadyToExport ?rm) 0
            = Some (Failure type_error_message None)"
    by (simp only: r(2) rc)
  have "settled (polls never_there 3 (call_wrapper None (OnAddToCart ()) new_manager))
           (promises (new_manager :: (unit, unit) manager)) = None
     \<and> settled (checkAvailability (Some ex_failing_editor)
        (polls never_there 3 (call_wrapper None (OnAddToCart ()) new_manager)))
           (promises (new_manager :: (unit, unit) manager))
       = run_callback (Some ex_failing_editor) (OnAddToCart ())"
    using wrapper_outcome [OF wf0, of None "OnAddToCart ()" never_there 3 ex_failing_editor,
        THEN conjunct2, THEN conjunct1] conjI [OF n(1) w]
    by (rule mp)
  then have d: "settled (polls never_there 3 (call_wrapper None (OnAddToCart ()) new_manager)) 0 = None
     \<and> settled (checkAvailability (Some ex_failing_editor)
        (polls never_there 3 (call_wrapper None (OnAddToCart ()) new_manager))) 0
       = Some (Failure ''not initialised'' None)"
    by (simp only: n(2) rc)
  from a b c d show ?thesis by (simp only:)
qed

text \<open>
  The bridge is unavailable and stays so: after 51 checks the promise of
  \<open>isReadyToExport\<close> is still unresolved, its callback still queued, and the chain of checks
  never ends. And a method that rejects with \<open>undefined\<close> leaves the promise unresolved.
\<close>

theorem wrapper_unavailable_counterexample:
  "settled (polls never_there 51 (call_wrapper None IsReadyToExport new_manager)) 0 = None
   \<and> readyCallbacks (polls never_there 51 (call_wrapper None IsReadyToExport new_manager))
        = [(IsReadyToExport, 0)]
   \<and> poll_editor never_there 0 (call_wrapper None IsReadyToExport new_manager) = None
   \<and> run_callback (Some ex_null_editor) UploadImage = None"
proof -
  have w: "\<forall>k. never_there k = None" by (simp add: never_there_def)
  have "settled (polls never_there 51 (call_wrapper None IsReadyToExport new_manager)) 0 = None
   \<and> readyCallbacks (polls never_there 51 (call_wrapper None IsReadyToExport new_manager))
        = [(IsReadyToExport, 0)]"
    using polls_absent_settled [OF w, of 51 "call_wrapper None IsReadyToExport new_manager"]
    by (simp add: call_wrapper_def new_manager_def)
  moreover have "run_callback (Some ex_null_editor) UploadImage = None"
    by (simp add: run_callback_def ex_null_editor_def)
  ultimately show ?thesis
    using poll_editor_never [OF w, of 0 "call_wrapper None IsReadyToExport new_manager"] by simp
qed

end
